theory Spec2Isabelle
  imports Complex_Main "HOL-Library.List_Lexorder" "HOL-Library.Char_ord" "HOL-Library.Multiset"
begin

section \<open>Python values and exceptions\<close>

text \<open>
  The client of \<^verbatim>\<open>smart_explore.py\<close> works on the values that
  \<^verbatim>\<open>json.loads\<close> produces. \<open>JNull\<close> is Python's \<^verbatim>\<open>None\<close>; a dict is an
  association list in insertion order whose lookup is \<open>map_of\<close> (a Python dict holds
  every key once). A float is falsy exactly when it is zero, which is all the code
  asks of a float, so it is carried as a real number.
\<close>

datatype json =
    JNull
  | JBool bool
  | JInt int
  | JFloat real
  | JStr string
  | JArr "json list"
  | JObj "(string \<times> json) list"

text \<open>
  The exception classes that the modelled code can meet. A subclass is identified with
  the class an \<^verbatim>\<open>except\<close> clause tests: \<open>RequestException\<close> stands for
  \<^verbatim>\<open>requests.RequestException\<close> and all its subclasses.
\<close>

datatype exn =
  RequestException | ValueError | AttributeError | TypeError | EOFError | RecursionError

fun bind_exn :: "exn + 'a \<Rightarrow> ('a \<Rightarrow> exn + 'b) \<Rightarrow> exn + 'b" where
  "bind_exn (Inl e) f = Inl e"
| "bind_exn (Inr x) f = f x"

text \<open>A \<^verbatim>\<open>for\<close> loop that appends one entry per item and stops at the first raise.\<close>

fun map_exn :: "('a \<Rightarrow> exn + 'b) \<Rightarrow> 'a list \<Rightarrow> exn + 'b list" where
  "map_exn f [] = Inr []"
| "map_exn f (x # xs) =
     bind_exn (f x) (\<lambda>y. bind_exn (map_exn f xs) (\<lambda>ys. Inr (y # ys)))"

text \<open>Truth value of a Python object, as \<^verbatim>\<open>not x\<close> and \<^verbatim>\<open>if x\<close> test it.\<close>

fun truthy :: "json \<Rightarrow> bool" where
  "truthy JNull = False"
| "truthy (JBool b) = b"
| "truthy (JInt i) = (i \<noteq> 0)"
| "truthy (JFloat x) = (x \<noteq> 0)"
| "truthy (JStr s) = (s \<noteq> [])"
| "truthy (JArr xs) = (xs \<noteq> [])"
| "truthy (JObj kvs) = (kvs \<noteq> [])"

text \<open>
  \<^verbatim>\<open>d.get(key, default)\<close>: the stored value when the key is present (also when that
  value is \<^verbatim>\<open>None\<close>), the default otherwise; only a dict has the method.
\<close>

fun py_get :: "json \<Rightarrow> string \<Rightarrow> json \<Rightarrow> exn + json" where
  "py_get (JObj kvs) k d = Inr (case map_of kvs k of Some v \<Rightarrow> v | None \<Rightarrow> d)"
| "py_get _ k d = Inl AttributeError"

text \<open>
  The items a \<^verbatim>\<open>for\<close> loop draws from a value: the elements of a list, the keys of
  a dict, the characters of a string; anything else is not iterable.
\<close>

fun py_iter :: "json \<Rightarrow> exn + json list" where
  "py_iter (JArr xs) = Inr xs"
| "py_iter (JObj kvs) = Inr (map (\<lambda>kv. JStr (fst kv)) kvs)"
| "py_iter (JStr s) = Inr (map (\<lambda>c. JStr [c]) s)"
| "py_iter _ = Inl TypeError"

section \<open>Structured content: \<^verbatim>\<open>process_dak_content\<close>\<close>

record dependency =
  dep_uri :: json
  dep_version :: json

record contained_resource =
  res_type :: json
  res_id :: json
  res_title :: json

record dak_info =
  dak_title :: json
  dak_version :: json
  dak_description :: json
  dak_status :: json
  dak_date :: json
  dak_publisher :: json
  dak_resources :: "contained_resource list"
  dak_dependencies :: "dependency list"

definition dependency_entry :: "json \<Rightarrow> exn + dependency" where
  "dependency_entry dep =
     bind_exn (py_get dep ''uri'' (JStr '''')) (\<lambda>u.
     bind_exn (py_get dep ''version'' (JStr '''')) (\<lambda>v.
     Inr \<lparr>dep_uri = u, dep_version = v\<rparr>))"

definition resource_entry :: "json \<Rightarrow> exn + contained_resource" where
  "resource_entry resource =
     bind_exn (py_get resource ''resourceType'' (JStr ''Unknown'')) (\<lambda>resource_type.
     bind_exn (py_get resource ''id'' (JStr '''')) (\<lambda>i.
     bind_exn (py_get resource ''name'' (JStr '''')) (\<lambda>n.
     bind_exn (py_get resource ''title'' n) (\<lambda>t.
     Inr \<lparr>res_type = resource_type, res_id = i, res_title = t\<rparr>))))"

text \<open>
  \<^verbatim>\<open>process_dak_content\<close>: a falsy document gives \<^verbatim>\<open>None\<close>; otherwise the six
  scalar fields are read with their defaults, then the \<^verbatim>\<open>dependsOn\<close> loop and the
  \<^verbatim>\<open>contained\<close> loop run in that order. \<open>Inr None\<close> is the returned \<^verbatim>\<open>None\<close>.
\<close>

definition process_dak_content :: "json \<Rightarrow> exn + dak_info option" where
  "process_dak_content guideline_data =
     (if \<not> truthy guideline_data then Inr None
      else
        bind_exn (py_get guideline_data ''title'' (JStr ''Unknown Title'')) (\<lambda>t.
        bind_exn (py_get guideline_data ''version'' (JStr ''Unknown Version'')) (\<lambda>v.
        bind_exn (py_get guideline_data ''description'' (JStr '''')) (\<lambda>d.
        bind_exn (py_get guideline_data ''status'' (JStr ''unknown'')) (\<lambda>s.
        bind_exn (py_get guideline_data ''date'' (JStr '''')) (\<lambda>dt.
        bind_exn (py_get guideline_data ''publisher'' (JStr '''')) (\<lambda>p.
        bind_exn (py_get guideline_data ''dependsOn'' (JArr [])) (\<lambda>deps.
        bind_exn (py_iter deps) (\<lambda>dep_items.
        bind_exn (map_exn dependency_entry dep_items) (\<lambda>ds.
        bind_exn (py_get guideline_data ''contained'' (JArr [])) (\<lambda>cont.
        bind_exn (py_iter cont) (\<lambda>res_items.
        bind_exn (map_exn resource_entry res_items) (\<lambda>rs.
        Inr (Some \<lparr>dak_title = t, dak_version = v, dak_description = d,
                   dak_status = s, dak_date = dt, dak_publisher = p,
                   dak_resources = rs, dak_dependencies = ds\<rparr>))))))))))))))"

text \<open>The document of the specification's example.\<close>

definition anc_document :: json where
  "anc_document =
     JObj [(''title'', JStr ''ANC''),
           (''dependsOn'', JArr [JObj [(''uri'', JStr ''x'')]]),
           (''contained'', JArr [JObj [(''resourceType'', JStr ''ValueSet''),
                                        (''id'', JStr ''v1'')]])]"

section \<open>The HTTP collaborator\<close>

text \<open>
  The \<^verbatim>\<open>requests\<close> library is outside the repository. One call either raises a
  transport failure (a \<^verbatim>\<open>requests.RequestException\<close>: DNS, connection, timeout,
  invalid URL) or delivers a response. Of a response the code reads the status code,
  the text and the outcome of \<^verbatim>\<open>response.json()\<close>, which returns the parsed body or
  raises. For a body that is not JSON the exception is
  \<^verbatim>\<open>requests.exceptions.JSONDecodeError\<close>, a subclass of \<^verbatim>\<open>RequestException\<close>,
  from requests 2.27 on, and a plain \<^verbatim>\<open>ValueError\<close> before. No version wraps the
  other failures of the decoder: from Python 3.11 on an integer of more than 4300 digits
  raises \<^verbatim>\<open>ValueError\<close>, and a deeply nested body raises
  \<^verbatim>\<open>RecursionError\<close>. The model keeps the class of the exception, so each of these
  is an input. Console output is not modelled.
\<close>

record response =
  status_code :: int
  resp_text :: string
  resp_json :: "exn + json"

datatype outcome = TransportError | Response response

text \<open>A transport answers each URL; the functions below also return the URLs they requested.\<close>

type_synonym transport = "string \<Rightarrow> outcome"

definition request :: "transport \<Rightarrow> string \<Rightarrow> exn + response" where
  "request send url =
     (case send url of TransportError \<Rightarrow> Inl RequestException | Response r \<Rightarrow> Inr r)"

section \<open>Ordered resolution: \<^verbatim>\<open>fetch_smart_guideline\<close>\<close>

definition url_patterns :: "string \<Rightarrow> string list" where
  "url_patterns guideline_name =
     [''http://build.fhir.org/ig/WorldHealthOrganization/smart-'' @ guideline_name
        @ ''/ImplementationGuide-smart-'' @ guideline_name @ ''.json'',
      ''http://build.fhir.org/ig/WorldHealthOrganization/smart-'' @ guideline_name
        @ ''/ImplementationGuide.json'',
      ''https://worldhealthorganization.github.io/smart-'' @ guideline_name
        @ ''/ImplementationGuide-smart-'' @ guideline_name @ ''.json'',
      ''https://worldhealthorganization.github.io/smart-'' @ guideline_name
        @ ''/ImplementationGuide.json'',
      ''http://smart.who.int/'' @ guideline_name
        @ ''/ImplementationGuide/smart.who.int.'' @ guideline_name @ ''.json'']"

text \<open>
  The body of the \<^verbatim>\<open>try\<close> block for one candidate: \<open>Inr (Some d)\<close> is
  \<^verbatim>\<open>return d\<close>, \<open>Inr None\<close> is falling out of the block, \<open>Inl e\<close> is a raise.
\<close>

definition fetch_attempt :: "transport \<Rightarrow> string \<Rightarrow> exn + json option" where
  "fetch_attempt get url =
     bind_exn (request get url) (\<lambda>r.
       if status_code r = 200
       then bind_exn (resp_json r) (\<lambda>d. Inr (Some d))
       else Inr None)"

text \<open>
  The \<^verbatim>\<open>for\<close> loop over the candidates. \<^verbatim>\<open>except requests.RequestException\<close>
  continues with the next candidate; an exception of another class leaves the function.
  After the loop the function returns \<^verbatim>\<open>None\<close>. The second component lists the
  URLs requested, in order.
\<close>

fun fetch_loop :: "transport \<Rightarrow> string list \<Rightarrow> (exn + json) \<times> string list" where
  "fetch_loop get [] = (Inr JNull, [])"
| "fetch_loop get (url # urls) =
     (case fetch_attempt get url of
        Inl e \<Rightarrow>
          if e = RequestException
          then (case fetch_loop get urls of (res, tr) \<Rightarrow> (res, url # tr))
          else (Inl e, [url])
      | Inr (Some d) \<Rightarrow> (Inr d, [url])
      | Inr None \<Rightarrow> (case fetch_loop get urls of (res, tr) \<Rightarrow> (res, url # tr)))"

definition fetch_smart_guideline :: "transport \<Rightarrow> string \<Rightarrow> (exn + json) \<times> string list" where
  "fetch_smart_guideline get guideline_name = fetch_loop get (url_patterns guideline_name)"

text \<open>
  The outcomes after which the loop goes on to the next candidate: a transport failure,
  a status other than 200, and a status-200 response whose \<^verbatim>\<open>json()\<close> raises a
  \<^verbatim>\<open>RequestException\<close>.
\<close>

fun moves_on :: "outcome \<Rightarrow> bool" where
  "moves_on TransportError = True"
| "moves_on (Response r) = (status_code r \<noteq> 200 \<or> resp_json r = Inl RequestException)"

text \<open>
  Two transports used as test inputs. In the first, the first candidate answers 200 with
  a body that is not JSON, reported the way requests 2.27 and later report it, and the
  second candidate answers 200 with a JSON document. In the second, the first candidate
  answers 200 with a body that is not JSON, reported the way older versions report it.
\<close>

definition html_then_json :: transport where
  "html_then_json url =
     (if url = url_patterns ''anc'' ! 0
      then Response \<lparr>status_code = 200, resp_text = ''<html></html>'',
                     resp_json = Inl RequestException\<rparr>
      else if url = url_patterns ''anc'' ! 1
      then Response \<lparr>status_code = 200, resp_text = ''{}'',
                     resp_json = Inr (JObj [(''title'', JStr ''ANC'')])\<rparr>
      else TransportError)"

definition html_value_error :: transport where
  "html_value_error url =
     (if url = url_patterns ''anc'' ! 0
      then Response \<lparr>status_code = 200, resp_text = ''<html></html>'',
                     resp_json = Inl ValueError\<rparr>
      else TransportError)"

text \<open>
  A transport whose first candidate answers 200 with a body of 4301 digits. On
  Python 3.11 and later the decoder refuses to convert an integer of that length and
  \<^verbatim>\<open>json()\<close> raises \<^verbatim>\<open>ValueError\<close>, in every version of requests.
\<close>

definition long_integer :: string where
  "long_integer = replicate 4301 (CHR ''1'')"

definition long_integer_body :: transport where
  "long_integer_body url =
     (if url = url_patterns ''anc'' ! 0
      then Response \<lparr>status_code = 200, resp_text = long_integer,
                     resp_json = Inl ValueError\<rparr>
      else TransportError)"

text \<open>A transport where only the third candidate answers 200, with a JSON document.\<close>

definition third_answers :: transport where
  "third_answers url =
     (if url = url_patterns ''anc'' ! 2
      then Response \<lparr>status_code = 200, resp_text = ''{}'',
                     resp_json = Inr (JObj [(''title'', JStr ''ANC'')])\<rparr>
      else if url = url_patterns ''anc'' ! 1
      then Response \<lparr>status_code = 404, resp_text = '''', resp_json = Inl ValueError\<rparr>
      else TransportError)"

definition all_down :: transport where
  "all_down url = TransportError"

section \<open>Repository metadata: \<^verbatim>\<open>get_guideline_summary\<close>\<close>

definition github_url :: "string \<Rightarrow> string" where
  "github_url guideline_name =
     ''https://api.github.com/repos/WorldHealthOrganization/smart-'' @ guideline_name"

definition summary_of :: "json \<Rightarrow> exn + json" where
  "summary_of repo_data =
     bind_exn (py_get repo_data ''name'' (JStr '''')) (\<lambda>n.
     bind_exn (py_get repo_data ''description'' (JStr ''No description available'')) (\<lambda>d.
     bind_exn (py_get repo_data ''updated_at'' (JStr '''')) (\<lambda>u.
     bind_exn (py_get repo_data ''html_url'' (JStr '''')) (\<lambda>h.
     bind_exn (py_get repo_data ''topics'' (JArr [])) (\<lambda>t.
     bind_exn (py_get repo_data ''language'' (JStr '''')) (\<lambda>l.
     bind_exn (py_get repo_data ''size'' (JInt 0)) (\<lambda>s.
     Inr (JObj [(''name'', n), (''description'', d), (''updated_at'', u),
                (''html_url'', h), (''topics'', t), (''language'', l),
                (''size'', s)]))))))))"

definition summary_attempt :: "transport \<Rightarrow> string \<Rightarrow> exn + json option" where
  "summary_attempt get url =
     bind_exn (request get url) (\<lambda>r.
       if status_code r = 200
       then bind_exn (resp_json r) (\<lambda>repo_data.
            bind_exn (summary_of repo_data) (\<lambda>s. Inr (Some s)))
       else Inr None)"

definition fallback_summary :: "string \<Rightarrow> json" where
  "fallback_summary guideline_name =
     JObj [(''name'', JStr guideline_name),
           (''description'', JStr ''Repository information not available'')]"

definition get_guideline_summary :: "transport \<Rightarrow> string \<Rightarrow> exn + json" where
  "get_guideline_summary get guideline_name =
     (case summary_attempt get (github_url guideline_name) of
        Inl e \<Rightarrow> if e = RequestException then Inr (fallback_summary guideline_name) else Inl e
      | Inr (Some s) \<Rightarrow> Inr s
      | Inr None \<Rightarrow> Inr (fallback_summary guideline_name))"

definition not_found :: transport where
  "not_found url = Response \<lparr>status_code = 404, resp_text = '''', resp_json = Inl ValueError\<rparr>"

section \<open>Availability probe: \<^verbatim>\<open>check_guideline_availability\<close>\<close>

text \<open>The \<^verbatim>\<open>status\<close> entry is the status code or the string \<^verbatim>\<open>'error'\<close>.\<close>

datatype probe_status = StatusCode int | StatusError

record availability =
  av_url :: string
  av_status :: probe_status
  av_accessible :: bool

definition endpoints :: "string \<Rightarrow> (string \<times> string) list" where
  "endpoints guideline_name =
     [(''build_site'',
         ''http://build.fhir.org/ig/WorldHealthOrganization/smart-'' @ guideline_name @ ''/''),
      (''github_pages'',
         ''https://worldhealthorganization.github.io/smart-'' @ guideline_name @ ''/''),
      (''github_repo'',
         ''https://github.com/WorldHealthOrganization/smart-'' @ guideline_name)]"

text \<open>One iteration: the \<^verbatim>\<open>try\<close> body, and the record the \<^verbatim>\<open>except\<close> clause stores.\<close>

definition probe :: "transport \<Rightarrow> string \<Rightarrow> exn + availability" where
  "probe head url =
     (case bind_exn (request head url) (\<lambda>r.
             Inr \<lparr>av_url = url, av_status = StatusCode (status_code r),
                  av_accessible = (status_code r = 200)\<rparr>) of
        Inl e \<Rightarrow>
          if e = RequestException
          then Inr \<lparr>av_url = url, av_status = StatusError, av_accessible = False\<rparr>
          else Inl e
      | Inr a \<Rightarrow> Inr a)"

text \<open>
  The result dict, as the list of its items in insertion order; the three keys differ,
  so no assignment overwrites another.
\<close>

definition check_guideline_availability ::
    "transport \<Rightarrow> string \<Rightarrow> exn + (string \<times> availability) list" where
  "check_guideline_availability head guideline_name =
     map_exn (\<lambda>(name, url). bind_exn (probe head url) (\<lambda>a. Inr (name, a)))
       (endpoints guideline_name)"

definition pages_only :: transport where
  "pages_only url =
     (if url = ''https://worldhealthorganization.github.io/smart-anc/''
      then Response \<lparr>status_code = 200, resp_text = '''', resp_json = Inl ValueError\<rparr>
      else if url = ''https://github.com/WorldHealthOrganization/smart-anc''
      then Response \<lparr>status_code = 301, resp_text = '''', resp_json = Inl ValueError\<rparr>
      else TransportError)"

section \<open>Token exchange: \<^verbatim>\<open>authenticate_oauth2\<close>\<close>

text \<open>
  \<^verbatim>\<open>requests.post\<close> takes the URL and the form data. \<open>stdin\<close> is the line that
  \<^verbatim>\<open>input()\<close> reads, \<open>None\<close> at end of input, where \<^verbatim>\<open>input()\<close> raises
  \<^verbatim>\<open>EOFError\<close> outside the \<^verbatim>\<open>try\<close> block.
\<close>

type_synonym post_transport = "string \<Rightarrow> (string \<times> string) list \<Rightarrow> outcome"

definition token_attempt :: "outcome \<Rightarrow> exn + json" where
  "token_attempt out =
     bind_exn (case out of TransportError \<Rightarrow> Inl RequestException | Response r \<Rightarrow> Inr r) (\<lambda>r.
       if status_code r = 200
       then bind_exn (resp_json r) (\<lambda>body. py_get body ''access_token'' JNull)
       else Inr JNull)"

definition authenticate_oauth2 ::
    "post_transport \<Rightarrow> string \<Rightarrow> string option \<Rightarrow> string \<Rightarrow> string \<Rightarrow> string \<Rightarrow> string
       \<Rightarrow> exn + json" where
  "authenticate_oauth2 post fhir_base_url stdin client_id client_secret redirect_uri scope =
     (case stdin of
        None \<Rightarrow> Inl EOFError
      | Some auth_code \<Rightarrow>
          (let token_url = fhir_base_url @ ''/oauth2/token'';
               token_data = [(''grant_type'', ''authorization_code''),
                             (''code'', auth_code),
                             (''client_id'', client_id),
                             (''client_secret'', client_secret),
                             (''redirect_uri'', redirect_uri)]
           in case token_attempt (post token_url token_data) of
                Inl e \<Rightarrow> if e = RequestException then Inr JNull else Inl e
              | Inr v \<Rightarrow> Inr v))"

definition token_server :: "json \<Rightarrow> post_transport" where
  "token_server body url form =
     Response \<lparr>status_code = 200, resp_text = '''', resp_json = Inr body\<rparr>"

definition refusing_server :: post_transport where
  "refusing_server url form =
     Response \<lparr>status_code = 401, resp_text = '''', resp_json = Inl ValueError\<rparr>"

definition unreachable_server :: post_transport where
  "unreachable_server url form = TransportError"

section \<open>Strings and Python's \<^verbatim>\<open>re\<close> module\<close>

text \<open>
  A string is a list of code points below 256. On that range the tables below are those
  of Python 3: \<^verbatim>\<open>\s\<close> and \<^verbatim>\<open>str.strip\<close> use \<^verbatim>\<open>str.isspace\<close>, \<^verbatim>\<open>\w\<close> is
  \<^verbatim>\<open>str.isalnum\<close> or the underscore, and \<^verbatim>\<open>str.lower\<close> maps A-Z and the
  accented capitals 0xC0-0xDE (without the multiplication sign 0xD7) to the letter 32
  places higher, which is the same code point with bit 5 set.
\<close>

definition is_space :: "char \<Rightarrow> bool" where
  "is_space c =
     ((CHR 0x09 \<le> c \<and> c \<le> CHR 0x0D) \<or> (CHR 0x1C \<le> c \<and> c \<le> CHR 0x20)
      \<or> c = CHR 0x85 \<or> c = CHR 0xA0)"

definition is_upper :: "char \<Rightarrow> bool" where
  "is_upper c =
     ((CHR ''A'' \<le> c \<and> c \<le> CHR ''Z'') \<or> (CHR 0xC0 \<le> c \<and> c \<le> CHR 0xD6)
      \<or> (CHR 0xD8 \<le> c \<and> c \<le> CHR 0xDE))"

definition has_upper :: "char \<Rightarrow> bool" where
  "has_upper c =
     ((CHR ''a'' \<le> c \<and> c \<le> CHR ''z'') \<or> (CHR 0xE0 \<le> c \<and> c \<le> CHR 0xF6)
      \<or> (CHR 0xF8 \<le> c \<and> c \<le> CHR 0xFE))"

definition is_word :: "char \<Rightarrow> bool" where
  "is_word c =
     ((CHR ''a'' \<le> c \<and> c \<le> CHR ''z'') \<or> (CHR ''A'' \<le> c \<and> c \<le> CHR ''Z'')
      \<or> (CHR ''0'' \<le> c \<and> c \<le> CHR ''9'') \<or> c = CHR ''_''
      \<or> c = CHR 0xAA \<or> c = CHR 0xB2 \<or> c = CHR 0xB3 \<or> c = CHR 0xB5
      \<or> c = CHR 0xB9 \<or> c = CHR 0xBA \<or> (CHR 0xBC \<le> c \<and> c \<le> CHR 0xBE)
      \<or> (CHR 0xC0 \<le> c \<and> c \<le> CHR 0xD6) \<or> (CHR 0xD8 \<le> c \<and> c \<le> CHR 0xF6)
      \<or> CHR 0xF8 \<le> c)"

fun with_bit5 :: "bool \<Rightarrow> char \<Rightarrow> char" where
  "with_bit5 b (Char b0 b1 b2 b3 b4 b5 b6 b7) = Char b0 b1 b2 b3 b4 b b6 b7"

definition lower :: "char \<Rightarrow> char" where
  "lower c = (if is_upper c then with_bit5 True c else c)"

text \<open>The capital of a small letter, where the capital is below 256.\<close>

definition upper :: "char \<Rightarrow> char" where
  "upper c = (if has_upper c then with_bit5 False c else c)"

definition strip :: "string \<Rightarrow> string" where
  "strip s = rev (dropWhile is_space (rev (dropWhile is_space s)))"

text \<open>\<^verbatim>\<open>k in s\<close> for strings.\<close>

fun contains :: "string \<Rightarrow> string \<Rightarrow> bool" where
  "contains k [] = (k = [])"
| "contains k (c # cs) = (take (length k) (c # cs) = k \<or> contains k cs)"

text \<open>\<^verbatim>\<open>s.split(c)[-1]\<close>: what follows the last \<open>c\<close>, all of \<open>s\<close> when there is none.\<close>

definition last_segment :: "char \<Rightarrow> string \<Rightarrow> string" where
  "last_segment c s = rev (takeWhile (\<lambda>x. x \<noteq> c) (rev s))"

text \<open>
  The regular expressions of the source use literals, character classes with ranges and
  the escapes \<^verbatim>\<open>\s\<close> and \<^verbatim>\<open>\w\<close>, negated classes, sequence, alternation, the
  greedy quantifiers \<^verbatim>\<open>?\<close>, \<^verbatim>\<open>*\<close> and \<^verbatim>\<open>+\<close>, and groups. A capturing group
  carries its number; \<^verbatim>\<open>(?:...)\<close> is the bare subexpression.
\<close>

datatype citem = CChar char | CRange char char | CSpace | CWord

datatype regex =
    Eps
  | Lit char
  | Cls bool "citem list"
  | Seq regex regex
  | Alt regex regex
  | Opt regex
  | Star regex
  | Grp nat regex

abbreviation Plus :: "regex \<Rightarrow> regex" where
  "Plus a \<equiv> Seq a (Star a)"

fun item_has :: "citem \<Rightarrow> char \<Rightarrow> bool" where
  "item_has (CChar c) d = (d = c)"
| "item_has (CRange a b) d = (a \<le> d \<and> d \<le> b)"
| "item_has CSpace d = is_space d"
| "item_has CWord d = is_word d"

text \<open>With \<^verbatim>\<open>re.IGNORECASE\<close> a class also holds the other case of its members.\<close>

definition in_class :: "bool \<Rightarrow> citem list \<Rightarrow> char \<Rightarrow> bool" where
  "in_class ic items d =
     (\<exists>i\<in>set items. item_has i d \<or> (ic \<and> (item_has i (lower d) \<or> item_has i (upper d))))"

text \<open>
  The matcher is the backtracking search of \<^verbatim>\<open>re\<close>: from a state (the text still
  to read, the groups captured so far) it lists every way to match, in the order in
  which backtracking tries them. Alternation tries the left branch first, a greedy
  quantifier tries one more repetition before it tries to stop, a sequence explores all
  continuations of an earlier choice before a later one. The head of the list is the
  match that \<^verbatim>\<open>re\<close> reports. \<open>ic\<close> is the flag \<^verbatim>\<open>re.IGNORECASE\<close>. A repetition
  that reads nothing is not repeated.
\<close>

type_synonym caps = "(nat \<times> string) list"

function (sequential) m :: "bool \<Rightarrow> regex \<Rightarrow> string \<times> caps \<Rightarrow> (string \<times> caps) list" where
  "m ic Eps st = [st]"
| "m ic (Lit c) (s, g) =
     (case s of
        [] \<Rightarrow> []
      | d # ds \<Rightarrow> if d = c \<or> (ic \<and> lower d = lower c) then [(ds, g)] else [])"
| "m ic (Cls neg items) (s, g) =
     (case s of
        [] \<Rightarrow> []
      | d # ds \<Rightarrow> if in_class ic items d \<noteq> neg then [(ds, g)] else [])"
| "m ic (Seq a b) st = concat (map (m ic b) (m ic a st))"
| "m ic (Alt a b) st = m ic a st @ m ic b st"
| "m ic (Opt a) st = m ic a st @ [st]"
| "m ic (Star a) st =
     concat (map (\<lambda>st'. if length (fst st') < length (fst st) then m ic (Star a) st' else [])
                 (m ic a st)) @ [st]"
| "m ic (Grp n a) (s, g) =
     map (\<lambda>(s', g'). (s', (n, take (length s - length s') s) # g')) (m ic a (s, g))"
  by pat_completeness auto
termination
  by (relation "measures [\<lambda>(ic, r, st). size r, \<lambda>(ic, r, st). length (fst st)]") auto

text \<open>The equation for \<open>Star\<close> unfolds itself; it is applied by hand.\<close>

declare m.simps(7) [simp del]

text \<open>A match that starts at the beginning of \<open>s\<close>: the rest of the text and the groups.\<close>

definition match_at :: "bool \<Rightarrow> regex \<Rightarrow> string \<Rightarrow> (string \<times> caps) option" where
  "match_at ic r s = (case m ic r (s, []) of [] \<Rightarrow> None | st # _ \<Rightarrow> Some st)"

text \<open>\<^verbatim>\<open>re.search\<close>: the match at the leftmost position that has one.\<close>

fun search :: "bool \<Rightarrow> regex \<Rightarrow> string \<Rightarrow> caps option" where
  "search ic r [] = map_option snd (match_at ic r [])"
| "search ic r (c # cs) =
     (case match_at ic r (c # cs) of
        Some (rest, g) \<Rightarrow> Some g
      | None \<Rightarrow> search ic r cs)"

text \<open>
  \<^verbatim>\<open>match.group(n)\<close>. In every pattern that the source reads a group of with
  \<^verbatim>\<open>search\<close>, group 1 lies on each path through the pattern, so it is set in each match.
  In \<^verbatim>\<open>findall\<close> a group that took no part is the empty string.
\<close>

definition match_group :: "caps \<Rightarrow> nat \<Rightarrow> string" where
  "match_group g n = (case map_of g n of Some s \<Rightarrow> s | None \<Rightarrow> [])"

text \<open>
  The successive matches, left to right without overlap: a position without a match is
  passed over, and after a match the scan resumes where the match ended. No pattern of
  the source matches the empty string; after an empty match the scan moves on by one.
\<close>

fun finditer :: "bool \<Rightarrow> regex \<Rightarrow> string \<Rightarrow> (string \<times> caps) list" where
  "finditer ic r [] =
     (case match_at ic r [] of None \<Rightarrow> [] | Some (rest, g) \<Rightarrow> [([], g)])"
| "finditer ic r (c # cs) =
     (case match_at ic r (c # cs) of
        None \<Rightarrow> finditer ic r cs
      | Some (rest, g) \<Rightarrow>
          (take (Suc (length cs) - length rest) (c # cs), g) #
          (if length rest < Suc (length cs) then finditer ic r rest else finditer ic r cs))"

fun ngroups :: "regex \<Rightarrow> nat" where
  "ngroups Eps = 0"
| "ngroups (Lit c) = 0"
| "ngroups (Cls neg items) = 0"
| "ngroups (Seq a b) = ngroups a + ngroups b"
| "ngroups (Alt a b) = ngroups a + ngroups b"
| "ngroups (Opt a) = ngroups a"
| "ngroups (Star a) = ngroups a"
| "ngroups (Grp n a) = Suc (ngroups a)"

text \<open>
  Two syntactic facts about a pattern: the numbers of its capturing groups, and whether
  a given group lies on every path through it.
\<close>

fun group_ids :: "regex \<Rightarrow> nat set" where
  "group_ids Eps = {}"
| "group_ids (Lit c) = {}"
| "group_ids (Cls neg items) = {}"
| "group_ids (Seq a b) = group_ids a \<union> group_ids b"
| "group_ids (Alt a b) = group_ids a \<union> group_ids b"
| "group_ids (Opt a) = group_ids a"
| "group_ids (Star a) = group_ids a"
| "group_ids (Grp n a) = insert n (group_ids a)"

fun always_sets :: "nat \<Rightarrow> regex \<Rightarrow> bool" where
  "always_sets n (Seq a b) = (always_sets n a \<or> always_sets n b)"
| "always_sets n (Alt a b) = (always_sets n a \<and> always_sets n b)"
| "always_sets n (Grp k a) = (k = n \<or> always_sets n a)"
| "always_sets n r = False"

text \<open>A matcher state with every letter of the text and of the captured groups in lower case.\<close>

definition lower_state :: "string \<times> caps \<Rightarrow> string \<times> caps" where
  "lower_state st = (map lower (fst st), map (\<lambda>(n, x). (n, map lower x)) (snd st))"

text \<open>
  \<^verbatim>\<open>re.findall\<close> returns a list of strings for a pattern with no group (the whole
  match) or one group (that group), and a list of tuples of all groups for a pattern
  with several groups.
\<close>

datatype fmatch = FStr string | FTuple "string list"

definition findall :: "bool \<Rightarrow> regex \<Rightarrow> string \<Rightarrow> fmatch list" where
  "findall ic r s =
     map (\<lambda>(whole, g).
            if ngroups r = 0 then FStr whole
            else if ngroups r = 1 then FStr (match_group g 1)
            else FTuple (map (match_group g) [1..<Suc (ngroups r)]))
         (finditer ic r s)"

text \<open>\<^verbatim>\<open>re.sub(pattern, repl, s)\<close> with a constant replacement.\<close>

fun re_sub :: "bool \<Rightarrow> regex \<Rightarrow> string \<Rightarrow> string \<Rightarrow> string" where
  "re_sub ic r repl [] = (case match_at ic r [] of None \<Rightarrow> [] | Some st \<Rightarrow> repl)"
| "re_sub ic r repl (c # cs) =
     (case match_at ic r (c # cs) of
        None \<Rightarrow> c # re_sub ic r repl cs
      | Some (rest, g) \<Rightarrow>
          if length rest < Suc (length cs) then repl @ re_sub ic r repl rest
          else repl @ c # re_sub ic r repl cs)"

definition lits :: "string \<Rightarrow> regex" where
  "lits s = foldr (\<lambda>c r. Seq (Lit c) r) s Eps"

definition seqs :: "regex list \<Rightarrow> regex" where
  "seqs rs = foldr Seq rs Eps"

fun alts :: "regex list \<Rightarrow> regex" where
  "alts [] = Eps"
| "alts [r] = r"
| "alts (r # rs) = Alt r (alts rs)"

text \<open>
  A Python \<^verbatim>\<open>set\<close> of strings is the list of its members, each once. The order in
  which \<^verbatim>\<open>list(s)\<close> enumerates a set follows the string hashes, which differ from
  one run to the next; it is a parameter \<open>order\<close> of the functions that enumerate a set.
\<close>

definition set_add :: "string \<Rightarrow> string list \<Rightarrow> string list" where
  "set_add x xs = (if x \<in> set xs then xs else xs @ [x])"

type_synonym set_order = "string list \<Rightarrow> string list"

section \<open>Text content: \<^verbatim>\<open>parse_implementation_guide_html\<close>\<close>

definition quote :: regex where
  "quote = Cls False [CChar (CHR 0x22), CChar (CHR 0x27)]"

definition not_quote :: regex where
  "not_quote = Cls True [CChar (CHR 0x22), CChar (CHR 0x27)]"

definition not_gt :: regex where
  "not_gt = Cls True [CChar (CHR ''>'')]"

definition not_lt :: regex where
  "not_lt = Cls True [CChar (CHR ''<'')]"

definition space :: regex where
  "space = Cls False [CSpace]"

definition digit :: regex where
  "digit = Cls False [CRange (CHR ''0'') (CHR ''9'')]"

text \<open>\<^verbatim>\<open><title[^>]*>([^<]+)</title>\<close>\<close>

definition title_pattern :: regex where
  "title_pattern =
     seqs [lits ''<title'', Star not_gt, Lit (CHR ''>''), Grp 1 (Plus not_lt),
           lits ''</title>'']"

text \<open>\<^verbatim>\<open><meta[^>]*name=["\']description["\'][^>]*content=["\']([^"\']+)["\']\<close>\<close>

definition desc_pattern :: regex where
  "desc_pattern =
     seqs [lits ''<meta'', Star not_gt, lits ''name='', quote, lits ''description'', quote,
           Star not_gt, lits ''content='', quote, Grp 1 (Plus not_quote), quote]"

text \<open>\<^verbatim>\<open>[0-9]+\.[0-9]+(?:\.[0-9]+)?\<close>\<close>

definition version_number :: regex where
  "version_number =
     seqs [Plus digit, Lit (CHR ''.''), Plus digit, Opt (Seq (Lit (CHR ''.'')) (Plus digit))]"

text \<open>
  \<^verbatim>\<open>Version[:\s]+([0-9]+\.[0-9]+(?:\.[0-9]+)?)\<close>,
  \<^verbatim>\<open>version["\']?\s*[:=]\s*["\']?([0-9]+\.[0-9]+(?:\.[0-9]+)?)\<close> and
  \<^verbatim>\<open>v([0-9]+\.[0-9]+(?:\.[0-9]+)?)\<close>
\<close>

definition version_patterns :: "regex list" where
  "version_patterns =
     [seqs [lits ''Version'', Plus (Cls False [CChar (CHR '':''), CSpace]),
            Grp 1 version_number],
      seqs [lits ''version'', Opt quote, Star space,
            Cls False [CChar (CHR '':''), CChar (CHR ''='')], Star space, Opt quote,
            Grp 1 version_number],
      seqs [Lit (CHR ''v''), Grp 1 version_number]]"

text \<open>
  \<^verbatim>\<open><h[1-6][^>]*>([^<]+)</h[1-6]>\<close> and
  \<^verbatim>\<open><div[^>]*class[^>]*header[^>]*>([^<]+)</div>\<close>
\<close>

definition section_patterns :: "regex list" where
  "section_patterns =
     [seqs [lits ''<h'', Cls False [CRange (CHR ''1'') (CHR ''6'')], Star not_gt,
            Lit (CHR ''>''), Grp 1 (Plus not_lt), lits ''</h'',
            Cls False [CRange (CHR ''1'') (CHR ''6'')], Lit (CHR ''>'')],
      seqs [lits ''<div'', Star not_gt, lits ''class'', Star not_gt, lits ''header'',
            Star not_gt, Lit (CHR ''>''), Grp 1 (Plus not_lt), lits ''</div>'']]"

text \<open>\<^verbatim>\<open>[a-zA-Z0-9._-]\<close>\<close>

definition id_char :: regex where
  "id_char =
     Cls False [CRange (CHR ''a'') (CHR ''z''), CRange (CHR ''A'') (CHR ''Z''),
                CRange (CHR ''0'') (CHR ''9''), CChar (CHR ''.''), CChar (CHR ''_''),
                CChar (CHR ''-'')]"

definition fhir_types :: "string list" where
  "fhir_types =
     [''StructureDefinition'', ''ValueSet'', ''CodeSystem'', ''ConceptMap'',
      ''ImplementationGuide'']"

text \<open>
  \<^verbatim>\<open>(StructureDefinition|ValueSet|CodeSystem|ConceptMap|ImplementationGuide)/([a-zA-Z0-9._-]+)\<close>
  and \<^verbatim>\<open>FHIR\s+([A-Z][a-zA-Z]+)\s*:?\s*([a-zA-Z0-9._-]+)?\<close>
\<close>

definition fhir_patterns :: "regex list" where
  "fhir_patterns =
     [seqs [Grp 1 (alts (map lits fhir_types)), Lit (CHR ''/''), Grp 2 (Plus id_char)],
      seqs [lits ''FHIR'', Plus space,
            Grp 1 (Seq (Cls False [CRange (CHR ''A'') (CHR ''Z'')])
                       (Plus (Cls False [CRange (CHR ''a'') (CHR ''z''),
                                         CRange (CHR ''A'') (CHR ''Z'')]))),
            Star space, Opt (Lit (CHR '':'')), Star space, Opt (Grp 2 (Plus id_char))]]"

text \<open>\<^verbatim>\<open><a[^>]*href=["\']([^"\']+)["\'][^>]*>([^<]+)</a>\<close>\<close>

definition link_pattern :: regex where
  "link_pattern =
     seqs [lits ''<a'', Star not_gt, lits ''href='', quote, Grp 1 (Plus not_quote), quote,
           Star not_gt, Lit (CHR ''>''), Grp 2 (Plus not_lt), lits ''</a>'']"

text \<open>\<^verbatim>\<open>re.sub(r'[^\w\s-]', '', s)\<close> and \<^verbatim>\<open>re.sub(r'\s+', ' ', s)\<close>\<close>

definition drop_punctuation :: "string \<Rightarrow> string" where
  "drop_punctuation s =
     re_sub False (Cls True [CWord, CSpace, CChar (CHR ''-'')]) [] s"

definition collapse_spaces :: "string \<Rightarrow> string" where
  "collapse_spaces s = re_sub False (Plus space) '' '' s"

text \<open>
  The loops that fill the two sets. The section patterns have one group, so their
  matches are strings; a tuple has no \<^verbatim>\<open>strip\<close> and does not occur.
\<close>

definition add_section :: "string list \<Rightarrow> fmatch \<Rightarrow> string list" where
  "add_section sections mt =
     (case mt of
        FStr s \<Rightarrow>
          (let clean_section = drop_punctuation (strip s)
           in if 3 < length clean_section \<and> length clean_section < 100
              then set_add clean_section sections else sections)
      | FTuple ts \<Rightarrow> sections)"

definition sections_set :: "string \<Rightarrow> string list" where
  "sections_set html =
     foldl add_section [] (concat (map (\<lambda>pattern. findall True pattern html) section_patterns))"

definition add_resource :: "string list \<Rightarrow> fmatch \<Rightarrow> string list" where
  "add_resource resources mt =
     (case mt of
        FTuple (resource_type # resource_id # rest) \<Rightarrow>
          if resource_id \<noteq> [] then set_add (resource_type @ '': '' @ resource_id) resources
          else resources
      | _ \<Rightarrow> resources)"

definition resources_set :: "string \<Rightarrow> string list" where
  "resources_set html =
     foldl add_resource [] (concat (map (\<lambda>pattern. findall False pattern html) fhir_patterns))"

definition link_keywords :: "string list" where
  "link_keywords = [''guide'', ''resource'', ''profile'', ''example'', ''download'']"

definition useful_link :: "fmatch \<Rightarrow> (string \<times> string) list" where
  "useful_link mt =
     (case mt of
        FTuple (href # txt # rest) \<Rightarrow>
          (let clean_text = collapse_spaces (strip txt)
           in if 3 < length clean_text \<and> length clean_text < 50
                 \<and> (\<exists>keyword\<in>set link_keywords. contains keyword (map lower clean_text))
              then [(href, clean_text)] else [])
      | _ \<Rightarrow> [])"

record html_info =
  source_url :: string
  title :: string
  version :: string
  description :: string
  sections :: "string list"
  resources :: "string list"
  links :: "(string \<times> string) list"

text \<open>The version loop: the first pattern with a match sets the version and breaks.\<close>

fun first_version :: "regex list \<Rightarrow> string \<Rightarrow> string option" where
  "first_version [] html = None"
| "first_version (pattern # patterns) html =
     (case search True pattern html of
        Some version_match \<Rightarrow> Some (match_group version_match 1)
      | None \<Rightarrow> first_version patterns html)"

definition parse_implementation_guide_html :: "set_order \<Rightarrow> string \<Rightarrow> string \<Rightarrow> html_info" where
  "parse_implementation_guide_html order html_content url =
     \<lparr>source_url = url,
      title = (case search True title_pattern html_content of
                 Some title_match \<Rightarrow> strip (match_group title_match 1)
               | None \<Rightarrow> ''Unknown Title''),
      version = (case first_version version_patterns html_content of
                   Some v \<Rightarrow> v
                 | None \<Rightarrow> ''Unknown Version''),
      description = (case search True desc_pattern html_content of
                       Some desc_match \<Rightarrow> strip (match_group desc_match 1)
                     | None \<Rightarrow> []),
      sections = take 10 (sort (order (sections_set html_content))),
      resources = take 15 (sort (order (resources_set html_content))),
      links = take 10 (concat (map useful_link (findall True link_pattern html_content)))\<rparr>"

section \<open>Text content: \<^verbatim>\<open>parse_downloads_html\<close>\<close>

text \<open>
  \<^verbatim>\<open><a[^>]*href=["\']([^"\']*\.(?:zip|tgz|tar\.gz|json|xml|xlsx))["\'][^>]*>([^<]+)</a>\<close>,
  \<^verbatim>\<open><a[^>]*href=["\']([^"\']*(?:package|full|validation|definitions)[^"\']*)["\'][^>]*>([^<]+)</a>\<close>
  and \<^verbatim>\<open>href=["\']([^"\']*(?:downloads?|files?|exports?)[^"\']*)["\']\<close>
\<close>

definition download_patterns :: "regex list" where
  "download_patterns =
     [seqs [lits ''<a'', Star not_gt, lits ''href='', quote,
            Grp 1 (seqs [Star not_quote, Lit (CHR ''.''),
                         alts [lits ''zip'', lits ''tgz'', lits ''tar.gz'', lits ''json'',
                               lits ''xml'', lits ''xlsx'']]),
            quote, Star not_gt, Lit (CHR ''>''), Grp 2 (Plus not_lt), lits ''</a>''],
      seqs [lits ''<a'', Star not_gt, lits ''href='', quote,
            Grp 1 (seqs [Star not_quote,
                         alts [lits ''package'', lits ''full'', lits ''validation'',
                               lits ''definitions''],
                         Star not_quote]),
            quote, Star not_gt, Lit (CHR ''>''), Grp 2 (Plus not_lt), lits ''</a>''],
      seqs [lits ''href='', quote,
            Grp 1 (seqs [Star not_quote,
                         alts [Seq (lits ''download'') (Opt (Lit (CHR ''s''))),
                               Seq (lits ''file'') (Opt (Lit (CHR ''s''))),
                               Seq (lits ''export'') (Opt (Lit (CHR ''s'')))],
                         Star not_quote]),
            quote]]"

text \<open>
  \<^verbatim>\<open>(FHIR\s+(?:package|bundle|specification))\<close>,
  \<^verbatim>\<open>(Implementation\s+Guide\s+(?:package|bundle))\<close>, \<^verbatim>\<open>(NPM\s+package)\<close>,
  \<^verbatim>\<open>(Validation\s+pack)\<close> and \<^verbatim>\<open>(Full\s+specification)\<close>
\<close>

definition package_patterns :: "regex list" where
  "package_patterns =
     [Grp 1 (seqs [lits ''FHIR'', Plus space,
                   alts [lits ''package'', lits ''bundle'', lits ''specification'']]),
      Grp 1 (seqs [lits ''Implementation'', Plus space, lits ''Guide'', Plus space,
                   alts [lits ''package'', lits ''bundle'']]),
      Grp 1 (seqs [lits ''NPM'', Plus space, lits ''package'']),
      Grp 1 (seqs [lits ''Validation'', Plus space, lits ''pack'']),
      Grp 1 (seqs [lits ''Full'', Plus space, lits ''specification''])]"

record file_entry =
  file_url :: string
  file_description :: string
  file_format :: string

definition file_ext :: "string \<Rightarrow> string" where
  "file_ext url =
     (if CHR ''.'' \<in> set url then map lower (last_segment (CHR ''.'') url) else ''unknown'')"

text \<open>
  One match of one download pattern: only a tuple of at least two members passes the
  test \<^verbatim>\<open>isinstance(match, tuple) and len(match) >= 2\<close>.
\<close>

definition file_of_match :: "fmatch \<Rightarrow> file_entry list" where
  "file_of_match mt =
     (case mt of
        FTuple (url # desc # rest) \<Rightarrow>
          (let clean_desc = collapse_spaces (strip desc)
           in if 3 < length clean_desc
              then [\<lparr>file_url = url, file_description = clean_desc,
                     file_format = file_ext url\<rparr>]
              else [])
      | _ \<Rightarrow> [])"

definition file_entries :: "regex list \<Rightarrow> string \<Rightarrow> file_entry list" where
  "file_entries patterns html =
     concat (map (\<lambda>pattern. concat (map file_of_match (findall True pattern html))) patterns)"

text \<open>\<^verbatim>\<open>[match for match in matches if match]\<close>: the matches that are not empty.\<close>

fun nonempty_match :: "fmatch \<Rightarrow> bool" where
  "nonempty_match (FStr s) = (s \<noteq> [])"
| "nonempty_match (FTuple ts) = (ts \<noteq> [])"

definition package_mentions :: "string \<Rightarrow> fmatch list" where
  "package_mentions html =
     concat (map (\<lambda>pattern. filter nonempty_match (findall True pattern html))
                 package_patterns)"

record downloads =
  dl_source_url :: string
  dl_files :: "file_entry list"
  dl_formats :: "string list"
  dl_packages :: "fmatch list"

definition parse_downloads_html :: "set_order \<Rightarrow> string \<Rightarrow> string \<Rightarrow> downloads" where
  "parse_downloads_html order html_content url =
     (let files = file_entries download_patterns html_content
      in \<lparr>dl_source_url = url,
          dl_files = files,
          dl_formats = order (foldl (\<lambda>formats f. set_add (file_format f) formats) [] files),
          dl_packages = package_mentions html_content\<rparr>)"

text \<open>Two enumeration orders and the documents used as test inputs.\<close>

definition insertion_order :: set_order where
  "insertion_order xs = xs"

definition reversed_order :: set_order where
  "reversed_order xs = rev xs"

definition labeled_and_bare :: string where
  "labeled_and_bare = ''<p>build v9.9</p><p>Version: 1.2</p>''"

definition key_value_and_bare :: string where
  "key_value_and_bare = ''<p>build v9.9</p><p>version='3.4.5'</p>''"

definition bare_only :: string where
  "bare_only = ''<title>My Guide v2.3</title><h1>Intro</h1>''"

definition no_version :: string where
  "no_version = ''<h1>Intro</h1>''"

definition guide_page :: string where
  "guide_page =
     ''<H2>Zeta one!</H2><h1>Alpha</h1><h3>Zeta one</h3> ValueSet/v1 CodeSystem/c1 ValueSet/v1''"

definition downloads_anchor :: string where
  "downloads_anchor = ''<a href='/downloads/x'>Get it here</a>''"

definition package_anchor :: string where
  "package_anchor = ''<a href='report.JSON'>The report</a><a href='/full/pkg'>Full  package</a>''"

definition keyword_reference :: string where
  "keyword_reference = ''FHIR Valueset abc''"

definition lowercase_reference :: string where
  "lowercase_reference = ''valueset/abc''"

definition exact_reference :: string where
  "exact_reference = ''<p>ValueSet/abc</p>''"

definition upper_case_page :: string where
  "upper_case_page =
     ''<TITLE>Guide</TITLE><META NAME='description' CONTENT='About'><H1>Intro</H1>VERSION: 1.2<A HREF='/g'>User Guide</A>''"

section \<open>Properties of \<^verbatim>\<open>process_dak_content\<close>\<close>

lemma map_exn_all_ok:
  "(\<And>x. x \<in> set xs \<Longrightarrow> f x = Inr (g x)) \<Longrightarrow> map_exn f xs = Inr (map g xs)"
  by (induction xs) simp_all

text \<open>
  Claim C2. On the document
  \<^verbatim>\<open>{"title": "ANC", "dependsOn": [{"uri": "x"}], "contained": [{"resourceType": "ValueSet", "id": "v1"}]}\<close>
  \<^verbatim>\<open>process_dak_content\<close> returns the record with title "ANC", version
  "Unknown Version", dependencies [{uri: "x", version: ""}] and resources
  [{type: "ValueSet", id: "v1", title: ""}] (the remaining absent keys take their
  defaults too), and on a null document and on an empty document it returns
  \<^verbatim>\<open>None\<close>.
\<close>

theorem process_dak_content_example:
  "process_dak_content anc_document =
     Inr (Some \<lparr>dak_title = JStr ''ANC'', dak_version = JStr ''Unknown Version'',
                dak_description = JStr '''', dak_status = JStr ''unknown'',
                dak_date = JStr '''', dak_publisher = JStr '''',
                dak_resources = [\<lparr>res_type = JStr ''ValueSet'', res_id = JStr ''v1'',
                                  res_title = JStr ''''\<rparr>],
                dak_dependencies = [\<lparr>dep_uri = JStr ''x'', dep_version = JStr ''''\<rparr>]\<rparr>)
   \<and> process_dak_content JNull = Inr None
   \<and> process_dak_content (JObj []) = Inr None"
  by (simp add: process_dak_content_def anc_document_def dependency_entry_def
      resource_entry_def)

section \<open>Properties of \<^verbatim>\<open>fetch_smart_guideline\<close>\<close>

lemma fetch_loop_moves_on:
  "(\<And>u. u \<in> set us \<Longrightarrow> moves_on (get u)) \<Longrightarrow>
   fetch_loop get (us @ vs) = (fst (fetch_loop get vs), us @ snd (fetch_loop get vs))"
proof (induction us)
  case Nil
  then show ?case by simp
next
  case (Cons u us)
  have m: "moves_on (get u)" using Cons.prems by simp
  have att: "fetch_attempt get u = Inl RequestException \<or> fetch_attempt get u = Inr None"
    using m by (cases "get u") (auto simp: fetch_attempt_def request_def)
  have ih: "fetch_loop get (us @ vs) = (fst (fetch_loop get vs), us @ snd (fetch_loop get vs))"
    using Cons by simp
  from att show ?case
  proof
    assume "fetch_attempt get u = Inl RequestException"
    then show ?thesis using ih by simp
  next
    assume "fetch_attempt get u = Inr None"
    then show ?thesis using ih by simp
  qed
qed

lemma fetch_loop_success:
  "get u = Response r \<Longrightarrow> status_code r = 200 \<Longrightarrow> resp_json r = Inr d \<Longrightarrow>
   fetch_loop get (u # vs) = (Inr d, [u])"
  by (simp add: fetch_attempt_def request_def)

lemma fetch_loop_first_success:
  assumes i: "i < length urls"
    and before: "\<And>j. j < i \<Longrightarrow> moves_on (get (urls ! j))"
    and r: "get (urls ! i) = Response r" "status_code r = 200" "resp_json r = Inr d"
  shows "fetch_loop get urls = (Inr d, take (Suc i) urls)"
proof -
  have split: "urls = take i urls @ (urls ! i) # drop (Suc i) urls"
    using i by (simp add: id_take_nth_drop)
  have pre: "\<And>u. u \<in> set (take i urls) \<Longrightarrow> moves_on (get u)"
  proof -
    fix u assume "u \<in> set (take i urls)"
    then obtain j where "j < length (take i urls)" "take i urls ! j = u"
      by (auto simp: in_set_conv_nth)
    then show "moves_on (get u)" using before[of j] i by auto
  qed
  have "fetch_loop get (take i urls @ (urls ! i) # drop (Suc i) urls)
        = (Inr d, take i urls @ [urls ! i])"
    using fetch_loop_moves_on[of "take i urls" get "(urls ! i) # drop (Suc i) urls"] pre
      fetch_loop_success[of get "urls ! i" r d "drop (Suc i) urls"] r by simp
  moreover have "take i urls @ [urls ! i] = take (Suc i) urls"
    using i by (simp add: take_Suc_conv_app_nth)
  ultimately show ?thesis using split by metis
qed

lemma fetch_loop_exhausted:
  assumes "\<And>j. j < length urls \<Longrightarrow> moves_on (get (urls ! j))"
  shows "fetch_loop get urls = (Inr JNull, urls)"
proof -
  have "\<And>u. u \<in> set urls \<Longrightarrow> moves_on (get u)"
    using assms by (auto simp: in_set_conv_nth)
  then show ?thesis using fetch_loop_moves_on[of urls get "[]"] by simp
qed

lemma length_url_patterns: "length (url_patterns n) = 5"
  by (simp add: url_patterns_def)

lemma fetch_loop_raised:
  "fst (fetch_loop get us) = Inl e \<Longrightarrow>
   e \<noteq> RequestException \<and>
   (\<exists>u\<in>set us. \<exists>r. get u = Response r \<and> status_code r = 200 \<and> resp_json r = Inl e)"
proof (induction us)
  case Nil
  then show ?case by simp
next
  case (Cons u us)
  show ?case
  proof (cases "get u")
    case TransportError
    then have "fetch_loop get (u # us) = (fst (fetch_loop get us), u # snd (fetch_loop get us))"
      by (simp add: fetch_attempt_def request_def split: prod.splits)
    then show ?thesis using Cons by simp
  next
    case (Response r)
    show ?thesis
    proof (cases "status_code r = 200")
      case False
      then have "fetch_loop get (u # us) = (fst (fetch_loop get us), u # snd (fetch_loop get us))"
        using Response by (simp add: fetch_attempt_def request_def split: prod.splits)
      then show ?thesis using Cons by simp
    next
      case True
      show ?thesis
      proof (cases "resp_json r")
        case (Inr d)
        then have "fetch_loop get (u # us) = (Inr d, [u])"
          using Response True by (simp add: fetch_attempt_def request_def)
        then show ?thesis using Cons.prems by simp
      next
        case (Inl e')
        show ?thesis
        proof (cases "e' = RequestException")
          case True
          then have "fetch_loop get (u # us) = (fst (fetch_loop get us), u # snd (fetch_loop get us))"
            using Response \<open>status_code r = 200\<close> Inl
            by (simp add: fetch_attempt_def request_def split: prod.splits)
          then show ?thesis using Cons by simp
        next
          case False
          then have "fetch_loop get (u # us) = (Inl e', [u])"
            using Response \<open>status_code r = 200\<close> Inl
            by (simp add: fetch_attempt_def request_def)
          then have "e = e'" using Cons.prems by simp
          then show ?thesis using False Response \<open>status_code r = 200\<close> Inl by auto
        qed
      qed
    qed
  qed
qed

text \<open>
  Claim C1, as amended. For every guideline identifier and every transport,
  \<^verbatim>\<open>fetch_smart_guideline\<close> tries the five candidate URLs in their declared order
  and returns the parsed body of the first response whose status code equals 200 and
  whose body parses, requesting no later candidate. A transport failure, a status other
  than 200, and a status-200 response whose \<^verbatim>\<open>json()\<close> raises a
  \<^verbatim>\<open>RequestException\<close> only move on to the next candidate. When all five
  candidates fail in one of these ways, the function returns \<^verbatim>\<open>None\<close>.
\<close>

theorem fetch_smart_guideline_first_parsed:
  "length (url_patterns name) = 5 \<and>
   (\<forall>i r d. i < 5 \<and> (\<forall>j<i. moves_on (get (url_patterns name ! j)))
        \<and> get (url_patterns name ! i) = Response r \<and> status_code r = 200
        \<and> resp_json r = Inr d
      \<longrightarrow> fetch_smart_guideline get name = (Inr d, take (Suc i) (url_patterns name))) \<and>
   ((\<forall>j<5. moves_on (get (url_patterns name ! j)))
      \<longrightarrow> fetch_smart_guideline get name = (Inr JNull, url_patterns name))"
  unfolding fetch_smart_guideline_def
  using fetch_loop_first_success[of _ "url_patterns name" get]
    fetch_loop_exhausted[of "url_patterns name" get]
  by (auto simp: length_url_patterns)

text \<open>
  The theorem at work: with \<open>third_answers\<close> the first two candidates are skipped and
  the third is returned after three requests; with \<open>all_down\<close> all five are requested and
  the result is \<^verbatim>\<open>None\<close>.
\<close>

theorem fetch_smart_guideline_first_parsed_witness:
  "fetch_smart_guideline third_answers ''anc'' =
     (Inr (JObj [(''title'', JStr ''ANC'')]), take 3 (url_patterns ''anc''))
   \<and> fetch_smart_guideline all_down ''anc'' = (Inr JNull, url_patterns ''anc'')"
proof -
  let ?r = "\<lparr>status_code = 200, resp_text = ''{}'',
             resp_json = Inr (JObj [(''title'', JStr ''ANC'')])\<rparr>"
  have before: "\<forall>j<2. moves_on (third_answers (url_patterns ''anc'' ! j))"
    by (simp add: less_Suc_eq numeral_2_eq_2 third_answers_def url_patterns_def)
  have at: "third_answers (url_patterns ''anc'' ! 2) = Response ?r"
    by (simp add: third_answers_def)
  have down: "\<forall>j<5. moves_on (all_down (url_patterns ''anc'' ! j))"
    by (simp add: all_down_def)
  have "fetch_smart_guideline third_answers ''anc'' =
          (Inr (JObj [(''title'', JStr ''ANC'')]), take (Suc 2) (url_patterns ''anc''))"
    using fetch_smart_guideline_first_parsed[of "''anc''" third_answers,
        THEN conjunct2, THEN conjunct1, rule_format, of 2 ?r "JObj [(''title'', JStr ''ANC'')]"]
      before at
    by simp
  moreover have "fetch_smart_guideline all_down ''anc'' = (Inr JNull, url_patterns ''anc'')"
    using fetch_smart_guideline_first_parsed[of "''anc''" all_down] down by blast
  ultimately show ?thesis by (simp add: numeral_3_eq_3)
qed

text \<open>
  Claim C1 as stated fails: "the parsed body of the first response whose status code
  equals 200 is returned and no later candidate is attempted". A first candidate that
  answers 200 with a body that is not JSON breaks it, whichever exception
  \<^verbatim>\<open>json()\<close> raises. With \<open>html_then_json\<close> it raises the
  \<^verbatim>\<open>RequestException\<close> subclass of requests 2.27 and later: the \<^verbatim>\<open>except\<close>
  clause continues, and the function requests the second candidate and returns its body.
  With \<open>html_value_error\<close> it raises the \<^verbatim>\<open>ValueError\<close> of older versions:
  the function returns nothing, the exception leaves it.
\<close>

theorem fetch_smart_guideline_unparsed_200:
  "html_then_json (url_patterns ''anc'' ! 0) =
     Response \<lparr>status_code = 200, resp_text = ''<html></html>'', resp_json = Inl RequestException\<rparr>
   \<and> fetch_smart_guideline html_then_json ''anc'' =
     (Inr (JObj [(''title'', JStr ''ANC'')]), [url_patterns ''anc'' ! 0, url_patterns ''anc'' ! 1])
   \<and> html_value_error (url_patterns ''anc'' ! 0) =
     Response \<lparr>status_code = 200, resp_text = ''<html></html>'', resp_json = Inl ValueError\<rparr>
   \<and> fst (fetch_smart_guideline html_value_error ''anc'') = Inl ValueError"
  by (simp add: fetch_smart_guideline_def html_then_json_def html_value_error_def
      url_patterns_def fetch_attempt_def request_def)

text \<open>
  Where an exception can leave \<^verbatim>\<open>fetch_smart_guideline\<close>: only at
  \<^verbatim>\<open>return response.json()\<close>. An exception that reaches the caller is not a
  \<^verbatim>\<open>RequestException\<close> and was raised by \<^verbatim>\<open>json()\<close> on a status-200
  response; on a transport where no status-200 response raises such an exception the
  function returns. Transport failures and statuses other than 200 never reach the caller.
\<close>

theorem fetch_smart_guideline_propagates_only_json:
  "(fst (fetch_smart_guideline get name) = Inl e \<longrightarrow>
      e \<noteq> RequestException \<and>
      (\<exists>u\<in>set (url_patterns name). \<exists>r.
          get u = Response r \<and> status_code r = 200 \<and> resp_json r = Inl e))
   \<and> ((\<forall>u\<in>set (url_patterns name). \<forall>r e'.
          get u = Response r \<and> status_code r = 200 \<and> resp_json r = Inl e'
            \<longrightarrow> e' = RequestException)
        \<longrightarrow> (\<exists>v. fst (fetch_smart_guideline get name) = Inr v))"
proof (intro conjI impI)
  assume "fst (fetch_smart_guideline get name) = Inl e"
  then show "e \<noteq> RequestException"
    using fetch_loop_raised[of get "url_patterns name" e]
    by (simp add: fetch_smart_guideline_def)
next
  assume "fst (fetch_smart_guideline get name) = Inl e"
  then show "\<exists>u\<in>set (url_patterns name). \<exists>r.
          get u = Response r \<and> status_code r = 200 \<and> resp_json r = Inl e"
    using fetch_loop_raised[of get "url_patterns name" e]
    by (simp add: fetch_smart_guideline_def)
next
  assume h: "\<forall>u\<in>set (url_patterns name). \<forall>r e'.
          get u = Response r \<and> status_code r = 200 \<and> resp_json r = Inl e'
            \<longrightarrow> e' = RequestException"
  show "\<exists>v. fst (fetch_smart_guideline get name) = Inr v"
  proof (cases "fst (fetch_smart_guideline get name)")
    case (Inl e')
    then have "e' \<noteq> RequestException \<and>
      (\<exists>u\<in>set (url_patterns name). \<exists>r.
          get u = Response r \<and> status_code r = 200 \<and> resp_json r = Inl e')"
      using fetch_loop_raised[of get "url_patterns name" e']
      by (simp add: fetch_smart_guideline_def)
    then show ?thesis using h by blast
  next
    case (Inr v)
    then show ?thesis by blast
  qed
qed

text \<open>
  Both cases occur: \<open>html_value_error\<close> makes the call raise
  \<^verbatim>\<open>ValueError\<close>, which \<^verbatim>\<open>json()\<close> raised at status 200; in
  \<open>html_then_json\<close> every \<^verbatim>\<open>json()\<close> failure is a
  \<^verbatim>\<open>RequestException\<close> and the call returns.
\<close>

theorem fetch_smart_guideline_propagates_only_json_witness:
  "fst (fetch_smart_guideline html_value_error ''anc'') = Inl ValueError
   \<and> (\<exists>u\<in>set (url_patterns ''anc''). \<exists>r.
          html_value_error u = Response r \<and> status_code r = 200 \<and> resp_json r = Inl ValueError)
   \<and> (\<exists>v. fst (fetch_smart_guideline html_then_json ''anc'') = Inr v)"
proof -
  have raised: "fst (fetch_smart_guideline html_value_error ''anc'') = Inl ValueError"
    by (simp add: fetch_smart_guideline_def html_value_error_def url_patterns_def
      fetch_attempt_def request_def)
  have caught: "\<forall>u\<in>set (url_patterns ''anc''). \<forall>r e'.
          html_then_json u = Response r \<and> status_code r = 200 \<and> resp_json r = Inl e'
            \<longrightarrow> e' = RequestException"
    by (auto simp: html_then_json_def split: if_splits)
  show ?thesis
    using fetch_smart_guideline_propagates_only_json[of html_value_error "''anc''" ValueError]
      fetch_smart_guideline_propagates_only_json[of html_then_json "''anc''"]
      raised caught by blast
qed

text \<open>
  Claim C5. The claim, with the docstring of \<^verbatim>\<open>fetch_smart_guideline\<close> ("Dictionary
  containing guideline data or None if not found"), says that for every response, also a
  status-200 response whose body is not valid JSON, the function returns a parsed document
  or \<^verbatim>\<open>None\<close> and never raises. The code does not do that:
  \<^verbatim>\<open>return response.json()\<close> is guarded by \<^verbatim>\<open>except requests.RequestException\<close>
  only. With \<open>long_integer_body\<close> the first candidate answers 200 with 4301 digits,
  \<^verbatim>\<open>json()\<close> raises \<^verbatim>\<open>ValueError\<close>, and the exception leaves the function after
  one request, no later candidate being tried. With \<open>html_value_error\<close> the same happens
  for an HTML body under requests before 2.27.
\<close>

theorem fetch_smart_guideline_value_error:
  "html_value_error (url_patterns ''anc'' ! 0) =
     Response \<lparr>status_code = 200, resp_text = ''<html></html>'', resp_json = Inl ValueError\<rparr>
   \<and> fetch_smart_guideline html_value_error ''anc'' =
       (Inl ValueError, [url_patterns ''anc'' ! 0])
   \<and> long_integer_body (url_patterns ''anc'' ! 0) =
     Response \<lparr>status_code = 200, resp_text = long_integer, resp_json = Inl ValueError\<rparr>
   \<and> fetch_smart_guideline long_integer_body ''anc'' =
       (Inl ValueError, [url_patterns ''anc'' ! 0])"
  by (simp add: fetch_smart_guideline_def html_value_error_def long_integer_body_def
      url_patterns_def fetch_attempt_def request_def)

section \<open>Properties of \<^verbatim>\<open>get_guideline_summary\<close>\<close>

text \<open>
  Claim C6, as amended. For every identifier, when the repository-metadata request
  fails, by a transport error or by a status other than 200,
  \<^verbatim>\<open>get_guideline_summary\<close> returns the fallback record whose name is the
  identifier and whose description is "Repository information not available".
\<close>

theorem get_guideline_summary_fallback:
  assumes "get (github_url name) = TransportError
           \<or> (\<exists>r. get (github_url name) = Response r \<and> status_code r \<noteq> 200)"
  shows "get_guideline_summary get name =
           Inr (JObj [(''name'', JStr name),
                      (''description'', JStr ''Repository information not available'')])"
  using assms
  by (auto simp: get_guideline_summary_def summary_attempt_def request_def
      fallback_summary_def)

text \<open>Both kinds of failure, for the identifier "anc".\<close>

theorem get_guideline_summary_fallback_witness:
  "get_guideline_summary all_down ''anc'' =
     Inr (JObj [(''name'', JStr ''anc''),
                (''description'', JStr ''Repository information not available'')])
   \<and> get_guideline_summary not_found ''anc'' =
     Inr (JObj [(''name'', JStr ''anc''),
                (''description'', JStr ''Repository information not available'')])"
proof -
  have a: "all_down (github_url ''anc'') = TransportError"
    by (simp add: all_down_def)
  have b: "\<exists>r. not_found (github_url ''anc'') = Response r \<and> status_code r \<noteq> 200"
    by (simp add: not_found_def)
  show ?thesis
    using get_guideline_summary_fallback[of all_down "''anc''"]
      get_guideline_summary_fallback[of not_found "''anc''"] a b
    by blast
qed

text \<open>
  Claim C6 as stated fails: the description of the fallback record is not the string
  "not available".
\<close>

theorem get_guideline_summary_not_available:
  "get_guideline_summary all_down ''anc'' \<noteq>
     Inr (JObj [(''name'', JStr ''anc''), (''description'', JStr ''not available'')])"
  by (simp add: get_guideline_summary_def summary_attempt_def request_def
      fallback_summary_def all_down_def)

section \<open>Properties of \<^verbatim>\<open>check_guideline_availability\<close>\<close>

lemma probe_value:
  "probe head url =
     Inr (case head url of
            TransportError \<Rightarrow> \<lparr>av_url = url, av_status = StatusError, av_accessible = False\<rparr>
          | Response r \<Rightarrow> \<lparr>av_url = url, av_status = StatusCode (status_code r),
                            av_accessible = (status_code r = 200)\<rparr>)"
  by (simp add: probe_def request_def split: outcome.splits)

lemma check_guideline_availability_value:
  "check_guideline_availability head name =
     Inr (map (\<lambda>(n, url). (n, case head url of
            TransportError \<Rightarrow> \<lparr>av_url = url, av_status = StatusError, av_accessible = False\<rparr>
          | Response r \<Rightarrow> \<lparr>av_url = url, av_status = StatusCode (status_code r),
                            av_accessible = (status_code r = 200)\<rparr>)) (endpoints name))"
  unfolding check_guideline_availability_def
  by (rule map_exn_all_ok) (auto simp: probe_value)

text \<open>
  Claim C8. For every identifier and every transport,
  \<^verbatim>\<open>check_guideline_availability\<close> returns a record for each of the three
  endpoints. An endpoint whose HEAD request raises a transport failure is recorded with
  status \<^verbatim>\<open>'error'\<close> and accessible false; a responding endpoint is recorded with
  its status code and is accessible exactly when that code is 200. The record of an
  endpoint depends on the answer for its own URL only: a transport that answers this
  URL alike records the same, whatever it does on the other endpoints.
\<close>

theorem check_guideline_availability_per_endpoint:
  "\<exists>avail. check_guideline_availability head name = Inr avail
     \<and> map fst avail = [''build_site'', ''github_pages'', ''github_repo'']
     \<and> (\<forall>(n, url)\<in>set (endpoints name).
          (head url = TransportError \<longrightarrow>
             map_of avail n =
               Some \<lparr>av_url = url, av_status = StatusError, av_accessible = False\<rparr>)
        \<and> (\<forall>r. head url = Response r \<longrightarrow>
             map_of avail n =
               Some \<lparr>av_url = url, av_status = StatusCode (status_code r),
                     av_accessible = (status_code r = 200)\<rparr>)
        \<and> (\<forall>head' avail'. check_guideline_availability head' name = Inr avail'
               \<and> head' url = head url \<longrightarrow> map_of avail' n = map_of avail n))"
  by (simp add: check_guideline_availability_value endpoints_def)

text \<open>
  For "anc" with \<open>pages_only\<close>: the build site fails and is recorded as an error, the
  pages site answers 200, the repository answers 301; the build-site record is the same
  as with \<open>all_down\<close>, which answers the other two endpoints differently.
\<close>

theorem check_guideline_availability_per_endpoint_witness:
  "\<exists>avail avail'. check_guideline_availability pages_only ''anc'' = Inr avail
     \<and> check_guideline_availability all_down ''anc'' = Inr avail'
     \<and> map_of avail ''build_site'' =
         Some \<lparr>av_url = ''http://build.fhir.org/ig/WorldHealthOrganization/smart-anc/'',
               av_status = StatusError, av_accessible = False\<rparr>
     \<and> map_of avail ''github_pages'' =
         Some \<lparr>av_url = ''https://worldhealthorganization.github.io/smart-anc/'',
               av_status = StatusCode 200, av_accessible = True\<rparr>
     \<and> map_of avail ''github_repo'' =
         Some \<lparr>av_url = ''https://github.com/WorldHealthOrganization/smart-anc'',
               av_status = StatusCode 301, av_accessible = False\<rparr>
     \<and> map_of avail' ''build_site'' = map_of avail ''build_site''"
proof -
  let ?b = "''http://build.fhir.org/ig/WorldHealthOrganization/smart-anc/''"
  let ?p = "''https://worldhealthorganization.github.io/smart-anc/''"
  let ?g = "''https://github.com/WorldHealthOrganization/smart-anc''"
  obtain avail where ok: "check_guideline_availability pages_only ''anc'' = Inr avail"
    and each: "\<forall>(n, url)\<in>set (endpoints ''anc'').
          (pages_only url = TransportError \<longrightarrow>
             map_of avail n =
               Some \<lparr>av_url = url, av_status = StatusError, av_accessible = False\<rparr>)
        \<and> (\<forall>r. pages_only url = Response r \<longrightarrow>
             map_of avail n =
               Some \<lparr>av_url = url, av_status = StatusCode (status_code r),
                     av_accessible = (status_code r = 200)\<rparr>)
        \<and> (\<forall>head' avail'. check_guideline_availability head' ''anc'' = Inr avail'
               \<and> head' url = pages_only url \<longrightarrow> map_of avail' n = map_of avail n)"
    using check_guideline_availability_per_endpoint[of pages_only "''anc''"] by blast
  obtain avail' where ok': "check_guideline_availability all_down ''anc'' = Inr avail'"
    using check_guideline_availability_per_endpoint[of all_down "''anc''"] by blast
  have mb: "(''build_site'', ?b) \<in> set (endpoints ''anc'')"
    and mp: "(''github_pages'', ?p) \<in> set (endpoints ''anc'')"
    and mg: "(''github_repo'', ?g) \<in> set (endpoints ''anc'')"
    by (simp_all add: endpoints_def)
  have hb: "pages_only ?b = TransportError"
    and hp: "pages_only ?p = Response \<lparr>status_code = 200, resp_text = '''', resp_json = Inl ValueError\<rparr>"
    and hg: "pages_only ?g = Response \<lparr>status_code = 301, resp_text = '''', resp_json = Inl ValueError\<rparr>"
    and same: "all_down ?b = pages_only ?b"
    by (simp_all add: pages_only_def all_down_def)
  have "map_of avail ''build_site'' =
         Some \<lparr>av_url = ?b, av_status = StatusError, av_accessible = False\<rparr>"
    using each mb hb by blast
  moreover have "map_of avail ''github_pages'' =
         Some \<lparr>av_url = ?p, av_status = StatusCode 200, av_accessible = True\<rparr>"
    using each mp hp by fastforce
  moreover have "map_of avail ''github_repo'' =
         Some \<lparr>av_url = ?g, av_status = StatusCode 301, av_accessible = False\<rparr>"
    using each mg hg by fastforce
  moreover have "map_of avail' ''build_site'' = map_of avail ''build_site''"
    using each mb ok' same by blast
  ultimately show ?thesis using ok ok' by blast
qed

section \<open>Properties of \<^verbatim>\<open>authenticate_oauth2\<close>\<close>

text \<open>
  Claim C9, as amended. After the authorization code is read, when the token-endpoint
  POST yields a status-200 response whose body parses to a JSON object,
  \<^verbatim>\<open>authenticate_oauth2\<close> returns the value stored under \<^verbatim>\<open>access_token\<close>,
  and \<^verbatim>\<open>None\<close> when the object has no such key; on a response with another
  status and on a transport error it returns \<^verbatim>\<open>None\<close>.
\<close>

theorem authenticate_oauth2_result:
  assumes "stdin = Some auth_code"
    and "out = post (fhir_base_url @ ''/oauth2/token'')
                 [(''grant_type'', ''authorization_code''), (''code'', auth_code),
                  (''client_id'', client_id), (''client_secret'', client_secret),
                  (''redirect_uri'', redirect_uri)]"
    and "res = authenticate_oauth2 post fhir_base_url stdin client_id client_secret
                 redirect_uri scope"
  shows "(\<forall>r kvs. out = Response r \<and> status_code r = 200 \<and> resp_json r = Inr (JObj kvs)
            \<longrightarrow> res = Inr (case map_of kvs ''access_token'' of Some v \<Rightarrow> v | None \<Rightarrow> JNull))
       \<and> (\<forall>r. out = Response r \<and> status_code r \<noteq> 200 \<longrightarrow> res = Inr JNull)
       \<and> (out = TransportError \<longrightarrow> res = Inr JNull)"
  using assms
  by (auto simp: authenticate_oauth2_def token_attempt_def Let_def)

text \<open>A server that grants a token, one that answers 401, and one that cannot be reached.\<close>

theorem authenticate_oauth2_result_witness:
  "authenticate_oauth2 (token_server (JObj [(''access_token'', JStr ''tok'')]))
       ''https://r4.smarthealthit.org'' (Some ''c0de'') ''app'' ''s3cret''
       ''http://localhost/cb'' ''patient/*.read'' = Inr (JStr ''tok'')
   \<and> authenticate_oauth2 refusing_server
       ''https://r4.smarthealthit.org'' (Some ''c0de'') ''app'' ''s3cret''
       ''http://localhost/cb'' ''patient/*.read'' = Inr JNull
   \<and> authenticate_oauth2 unreachable_server
       ''https://r4.smarthealthit.org'' (Some ''c0de'') ''app'' ''s3cret''
       ''http://localhost/cb'' ''patient/*.read'' = Inr JNull"
proof -
  let ?data = "[(''grant_type'', ''authorization_code''), (''code'', ''c0de''),
                (''client_id'', ''app''), (''client_secret'', ''s3cret''),
                (''redirect_uri'', ''http://localhost/cb'')]"
  let ?url = "''https://r4.smarthealthit.org'' @ ''/oauth2/token''"
  let ?ok = "token_server (JObj [(''access_token'', JStr ''tok'')])"
  have a: "?ok ?url ?data = Response \<lparr>status_code = 200, resp_text = '''',
              resp_json = Inr (JObj [(''access_token'', JStr ''tok'')])\<rparr>"
    by (simp add: token_server_def)
  have b: "refusing_server ?url ?data =
             Response \<lparr>status_code = 401, resp_text = '''', resp_json = Inl ValueError\<rparr>"
    by (simp add: refusing_server_def)
  have c: "unreachable_server ?url ?data = TransportError"
    by (simp add: unreachable_server_def)
  have "authenticate_oauth2 ?ok ''https://r4.smarthealthit.org'' (Some ''c0de'') ''app''
          ''s3cret'' ''http://localhost/cb'' ''patient/*.read'' = Inr (JStr ''tok'')"
    using authenticate_oauth2_result[OF refl refl refl, of ?ok "''https://r4.smarthealthit.org''"
        "''c0de''" "''app''" "''s3cret''" "''http://localhost/cb''" "''patient/*.read''",
        THEN conjunct1, rule_format,
        of "\<lparr>status_code = 200, resp_text = '''',
              resp_json = Inr (JObj [(''access_token'', JStr ''tok'')])\<rparr>"
           "[(''access_token'', JStr ''tok'')]"] a
    by simp
  moreover have "authenticate_oauth2 refusing_server ''https://r4.smarthealthit.org''
          (Some ''c0de'') ''app'' ''s3cret'' ''http://localhost/cb'' ''patient/*.read'' = Inr JNull"
    using authenticate_oauth2_result[OF refl refl refl, of refusing_server
        "''https://r4.smarthealthit.org''"
        "''c0de''" "''app''" "''s3cret''" "''http://localhost/cb''" "''patient/*.read''",
        THEN conjunct2, THEN conjunct1, rule_format,
        of "\<lparr>status_code = 401, resp_text = '''', resp_json = Inl ValueError\<rparr>"] b
    by simp
  moreover have "authenticate_oauth2 unreachable_server ''https://r4.smarthealthit.org''
          (Some ''c0de'') ''app'' ''s3cret'' ''http://localhost/cb'' ''patient/*.read'' = Inr JNull"
    using authenticate_oauth2_result[OF refl refl refl, of unreachable_server
        "''https://r4.smarthealthit.org''"
        "''c0de''" "''app''" "''s3cret''" "''http://localhost/cb''" "''patient/*.read''",
        THEN conjunct2, THEN conjunct2] c
    by simp
  ultimately show ?thesis by blast
qed

text \<open>
  Claim C9 as stated fails: "no token is returned only on a non-200 response or a
  transport error". The token endpoint answers 200 with a JSON object that has no
  \<^verbatim>\<open>access_token\<close> key, and the function returns \<^verbatim>\<open>None\<close>.
\<close>

theorem authenticate_oauth2_no_token_on_200:
  "token_server (JObj [(''error'', JStr ''invalid_grant'')]) ''https://r4.smarthealthit.org/oauth2/token''
      [(''grant_type'', ''authorization_code''), (''code'', ''c0de''),
       (''client_id'', ''app''), (''client_secret'', ''s3cret''),
       (''redirect_uri'', ''http://localhost/cb'')]
     = Response \<lparr>status_code = 200, resp_text = '''',
                  resp_json = Inr (JObj [(''error'', JStr ''invalid_grant'')])\<rparr>
   \<and> authenticate_oauth2 (token_server (JObj [(''error'', JStr ''invalid_grant'')]))
       ''https://r4.smarthealthit.org'' (Some ''c0de'') ''app'' ''s3cret''
       ''http://localhost/cb'' ''patient/*.read'' = Inr JNull"
  by (simp add: authenticate_oauth2_def token_attempt_def token_server_def)

section \<open>Properties of \<^verbatim>\<open>parse_implementation_guide_html\<close>\<close>

lemma first_version_three:
  "first_version [a, b, c] html =
     (case search True a html of Some g \<Rightarrow> Some (match_group g 1)
      | None \<Rightarrow> (case search True b html of Some g \<Rightarrow> Some (match_group g 1)
      | None \<Rightarrow> (case search True c html of Some g \<Rightarrow> Some (match_group g 1)
      | None \<Rightarrow> None)))"
  by (simp split: option.splits)

lemma version_patterns_three:
  "version_patterns = [version_patterns ! 0, version_patterns ! 1, version_patterns ! 2]"
  by (simp add: version_patterns_def)

text \<open>
  Claim C3. For every HTML input the version that
  \<^verbatim>\<open>parse_implementation_guide_html\<close> extracts comes from the three version patterns
  (the labeled form, the key/value form, the bare form) tried in that order: if the
  labeled pattern matches anywhere in the document its number is the version, whatever
  the later patterns match; otherwise the key/value pattern decides, if it matches;
  otherwise the bare pattern; and when none matches the version stays "Unknown Version".
\<close>

theorem version_pattern_priority:
  assumes "v = version (parse_implementation_guide_html order html url)"
  shows "length version_patterns = 3
    \<and> (\<forall>g. search True (version_patterns ! 0) html = Some g \<longrightarrow> v = match_group g 1)
    \<and> (\<forall>g. search True (version_patterns ! 0) html = None
            \<and> search True (version_patterns ! 1) html = Some g \<longrightarrow> v = match_group g 1)
    \<and> (\<forall>g. search True (version_patterns ! 0) html = None
            \<and> search True (version_patterns ! 1) html = None
            \<and> search True (version_patterns ! 2) html = Some g \<longrightarrow> v = match_group g 1)
    \<and> (search True (version_patterns ! 0) html = None
            \<and> search True (version_patterns ! 1) html = None
            \<and> search True (version_patterns ! 2) html = None \<longrightarrow> v = ''Unknown Version'')"
proof -
  have "first_version version_patterns html =
     (case search True (version_patterns ! 0) html of Some g \<Rightarrow> Some (match_group g 1)
      | None \<Rightarrow> (case search True (version_patterns ! 1) html of Some g \<Rightarrow> Some (match_group g 1)
      | None \<Rightarrow> (case search True (version_patterns ! 2) html of Some g \<Rightarrow> Some (match_group g 1)
      | None \<Rightarrow> None)))"
    by (metis first_version_three version_patterns_three)
  moreover have "length version_patterns = 3"
    by (simp add: version_patterns_def)
  ultimately show ?thesis
    using assms by (simp add: parse_implementation_guide_html_def)
qed

text \<open>
  A document with a bare "v9.9" before a labeled "Version: 1.2" yields 1.2, although the
  bare pattern matches too; a key/value form wins over the bare form; a document with
  the bare form only yields its number; a document without any form keeps the default.
\<close>

theorem version_pattern_priority_witness:
  "version (parse_implementation_guide_html insertion_order labeled_and_bare ''u'') = ''1.2''
   \<and> search True (version_patterns ! 2) labeled_and_bare = Some [(1, ''9.9'')]
   \<and> version (parse_implementation_guide_html insertion_order key_value_and_bare ''u'') = ''3.4.5''
   \<and> version (parse_implementation_guide_html insertion_order bare_only ''u'') = ''2.3''
   \<and> version (parse_implementation_guide_html insertion_order no_version ''u'')
       = ''Unknown Version''"
proof -
  have a: "search True (version_patterns ! 0) labeled_and_bare = Some [(1, ''1.2'')]"
    by code_simp
  have a': "search True (version_patterns ! 2) labeled_and_bare = Some [(1, ''9.9'')]"
    by code_simp
  have b: "search True (version_patterns ! 0) key_value_and_bare = None"
    "search True (version_patterns ! 1) key_value_and_bare = Some [(1, ''3.4.5'')]"
    by code_simp+
  have c: "search True (version_patterns ! 0) bare_only = None"
    "search True (version_patterns ! 1) bare_only = None"
    "search True (version_patterns ! 2) bare_only = Some [(1, ''2.3'')]"
    by code_simp+
  have d: "search True (version_patterns ! 0) no_version = None"
    "search True (version_patterns ! 1) no_version = None"
    "search True (version_patterns ! 2) no_version = None"
    by code_simp+
  have g: "match_group [(1, ''1.2'')] 1 = ''1.2''" "match_group [(1, ''3.4.5'')] 1 = ''3.4.5''"
    "match_group [(1, ''2.3'')] 1 = ''2.3''"
    by (simp_all add: match_group_def)
  have "version (parse_implementation_guide_html insertion_order labeled_and_bare ''u'') = ''1.2''"
    using version_pattern_priority[where order = insertion_order and html = labeled_and_bare
        and url = "''u''", OF refl] a g
    by simp
  moreover have "version (parse_implementation_guide_html insertion_order key_value_and_bare ''u'')
      = ''3.4.5''"
    using version_pattern_priority[where order = insertion_order and html = key_value_and_bare
        and url = "''u''", OF refl] b g
    by simp
  moreover have "version (parse_implementation_guide_html insertion_order bare_only ''u'') = ''2.3''"
    using version_pattern_priority[where order = insertion_order and html = bare_only
        and url = "''u''", OF refl] c g
    by simp
  moreover have "version (parse_implementation_guide_html insertion_order no_version ''u'')
      = ''Unknown Version''"
    using version_pattern_priority[where order = insertion_order and html = no_version
        and url = "''u''", OF refl] d
    by simp
  ultimately show ?thesis using a' by blast
qed

lemma distinct_set_add: "distinct xs \<Longrightarrow> distinct (set_add x xs)"
  by (simp add: set_add_def)

lemma distinct_foldl_add_section:
  "distinct acc \<Longrightarrow> distinct (foldl add_section acc ms)"
proof (induction ms arbitrary: acc)
  case Nil
  then show ?case by simp
next
  case (Cons a ms)
  have "distinct (add_section acc a)"
    using Cons.prems by (auto simp: add_section_def Let_def distinct_set_add split: fmatch.splits)
  then show ?case using Cons.IH by simp
qed

lemma distinct_foldl_add_resource:
  "distinct acc \<Longrightarrow> distinct (foldl add_resource acc ms)"
proof (induction ms arbitrary: acc)
  case Nil
  then show ?case by simp
next
  case (Cons a ms)
  have "distinct (add_resource acc a)"
    using Cons.prems
    by (auto simp: add_resource_def distinct_set_add split: fmatch.splits list.splits)
  then show ?case using Cons.IH by simp
qed

lemma sort_enumeration:
  fixes xs :: "string list"
  assumes "mset ys = mset xs"
  shows "sort ys = sort xs"
  by (rule properties_for_sort) (simp_all add: assms)

lemma sorted_capped:
  fixes xs :: "string list"
  assumes "distinct xs" and "mset (order xs) = mset xs"
  shows "sorted (take n (sort (order xs)))" "distinct (take n (sort (order xs)))"
    "length (take n (sort (order xs))) \<le> n" "take n (sort (order xs)) = take n (sort xs)"
proof -
  have d: "distinct (order xs)"
    using assms mset_eq_imp_distinct_iff by blast
  show "sorted (take n (sort (order xs)))" by (simp add: sorted_wrt_take)
  show "distinct (take n (sort (order xs)))" using d by (simp add: distinct_take)
  show "length (take n (sort (order xs))) \<le> n" by simp
  show "take n (sort (order xs)) = take n (sort xs)"
    using sort_enumeration[OF assms(2)] by simp
qed

text \<open>
  Claim C7. For every HTML input the sections and the resources of
  \<^verbatim>\<open>parse_implementation_guide_html\<close> hold no duplicate, are sorted
  lexicographically and have at most 10 and at most 15 entries. The extraction is
  deterministic: whatever order the two sets are enumerated in, so on every run on the
  same input, the two lists are the same.
\<close>

theorem sections_resources_sorted_capped:
  assumes "\<forall>xs. mset (order xs) = mset xs" and "\<forall>xs. mset (order' xs) = mset xs"
    and "info = parse_implementation_guide_html order html url"
    and "info' = parse_implementation_guide_html order' html url"
  shows "sorted (sections info) \<and> distinct (sections info) \<and> length (sections info) \<le> 10
    \<and> sorted (resources info) \<and> distinct (resources info) \<and> length (resources info) \<le> 15
    \<and> sections info' = sections info \<and> resources info' = resources info"
proof -
  have ds: "distinct (sections_set html)"
    unfolding sections_set_def by (rule distinct_foldl_add_section) simp
  have dr: "distinct (resources_set html)"
    unfolding resources_set_def by (rule distinct_foldl_add_resource) simp
  have s: "sections info = take 10 (sort (order (sections_set html)))"
    and s': "sections info' = take 10 (sort (order' (sections_set html)))"
    and r: "resources info = take 15 (sort (order (resources_set html)))"
    and r': "resources info' = take 15 (sort (order' (resources_set html)))"
    using assms(3,4) by (simp_all add: parse_implementation_guide_html_def)
  have o: "mset (order (sections_set html)) = mset (sections_set html)"
    "mset (order (resources_set html)) = mset (resources_set html)"
    "mset (order' (sections_set html)) = mset (sections_set html)"
    "mset (order' (resources_set html)) = mset (resources_set html)"
    using assms(1,2) by simp_all
  show ?thesis
    unfolding s s' r r'
    using sorted_capped[of "sections_set html" order 10]
      sorted_capped[of "resources_set html" order 15]
      sorted_capped(4)[of "sections_set html" order' 10]
      sorted_capped(4)[of "resources_set html" order' 15] ds dr o
    by simp
qed

text \<open>
  A page with a repeated heading and a repeated reference, with the sets enumerated in
  insertion order and in the reverse order.
\<close>

theorem sections_resources_sorted_capped_witness:
  "sections (parse_implementation_guide_html reversed_order guide_page ''u'')
     = [''Alpha'', ''Zeta one'']
   \<and> resources (parse_implementation_guide_html reversed_order guide_page ''u'')
     = [''CodeSystem: c1'', ''ValueSet: v1'']
   \<and> sections (parse_implementation_guide_html insertion_order guide_page ''u'')
     = sections (parse_implementation_guide_html reversed_order guide_page ''u'')
   \<and> resources (parse_implementation_guide_html insertion_order guide_page ''u'')
     = resources (parse_implementation_guide_html reversed_order guide_page ''u'')
   \<and> sorted (sections (parse_implementation_guide_html reversed_order guide_page ''u''))
   \<and> distinct (resources (parse_implementation_guide_html reversed_order guide_page ''u''))"
proof -
  have p: "\<forall>xs. mset (reversed_order xs) = mset xs" "\<forall>xs. mset (insertion_order xs) = mset xs"
    by (simp_all add: reversed_order_def insertion_order_def)
  have v: "sections (parse_implementation_guide_html reversed_order guide_page ''u'')
     = [''Alpha'', ''Zeta one'']"
    "resources (parse_implementation_guide_html reversed_order guide_page ''u'')
     = [''CodeSystem: c1'', ''ValueSet: v1'']"
    by code_simp+
  show ?thesis
    using sections_resources_sorted_capped[where order = reversed_order
        and order' = insertion_order and html = guide_page and url = "''u''", OF p refl refl] v
    by simp
qed

section \<open>Properties of \<^verbatim>\<open>parse_downloads_html\<close>\<close>

lemma findall_one_group:
  "ngroups r = 1 \<Longrightarrow> x \<in> set (findall ic r s) \<Longrightarrow> \<exists>t. x = FStr t"
  by (auto simp: findall_def)

lemma file_of_match_Nil:
  "ngroups r = 1 \<Longrightarrow> concat (map file_of_match (findall ic r s)) = []"
  using findall_one_group[of r _ ic s]
  by (fastforce simp: file_of_match_def)

lemma download_patterns_three:
  "download_patterns = [download_patterns ! 0, download_patterns ! 1, download_patterns ! 2]"
  by (simp add: download_patterns_def)

lemma ngroups_third_download_pattern: "ngroups (download_patterns ! 2) = 1"
  by code_simp

lemma file_entries_two:
  "file_entries [a, b] html =
     concat (map file_of_match (findall True a html))
     @ concat (map file_of_match (findall True b html))"
  by (simp add: file_entries_def)

lemma file_entries_three:
  "file_entries [a, b, c] html =
     file_entries [a, b] html @ concat (map file_of_match (findall True c html))"
  by (simp add: file_entries_def)

lemma file_of_match_entry:
  "3 < length (collapse_spaces (strip d)) \<Longrightarrow>
   file_of_match (FTuple (u # d # rest)) =
     [\<lparr>file_url = u, file_description = collapse_spaces (strip d), file_format = file_ext u\<rparr>]"
  by (simp add: file_of_match_def)

text \<open>
  How the loop over the download patterns behaves on every input. An anchor matched by
  one of the first two patterns, with a description longer than 3, gets its file entry
  (url, whitespace-collapsed description, format). The third pattern is in the list but
  is dead: it has a single group, \<^verbatim>\<open>findall\<close> returns plain strings for it, and the
  test \<^verbatim>\<open>isinstance(match, tuple) and len(match) >= 2\<close> drops every one of them,
  so the files are those of the first two patterns alone. The loops over the section
  patterns and the package patterns take single-group matches as strings; this one
  does not.
\<close>

theorem download_files_from_anchor_patterns:
  assumes "files = dl_files (parse_downloads_html order html url)"
  shows "files = file_entries (take 2 download_patterns) html
    \<and> concat (map file_of_match (findall True (download_patterns ! 2) html)) = []
    \<and> (\<forall>p\<in>set (take 2 download_patterns). \<forall>u d rest.
          FTuple (u # d # rest) \<in> set (findall True p html)
          \<and> 3 < length (collapse_spaces (strip d))
          \<longrightarrow> \<lparr>file_url = u, file_description = collapse_spaces (strip d),
                file_format = file_ext u\<rparr> \<in> set files)"
proof -
  let ?a = "download_patterns ! 0" and ?b = "download_patterns ! 1"
    and ?c = "download_patterns ! 2"
  have third: "concat (map file_of_match (findall True ?c html)) = []"
    using file_of_match_Nil[OF ngroups_third_download_pattern] by simp
  have two: "take 2 download_patterns = [?a, ?b]"
    by (simp add: download_patterns_def)
  have "files = file_entries [?a, ?b, ?c] html"
    using assms download_patterns_three by (simp add: parse_downloads_html_def Let_def)
  then have files: "files = file_entries [?a, ?b] html"
    using third by (simp add: file_entries_three)
  have each: "\<lparr>file_url = u, file_description = collapse_spaces (strip d),
                file_format = file_ext u\<rparr> \<in> set files"
    if "p \<in> set [?a, ?b]" "FTuple (u # d # rest) \<in> set (findall True p html)"
      "3 < length (collapse_spaces (strip d))" for p u d rest
  proof -
    have "\<lparr>file_url = u, file_description = collapse_spaces (strip d),
            file_format = file_ext u\<rparr>
          \<in> set (concat (map file_of_match (findall True p html)))"
      using that(2) file_of_match_entry[OF that(3), of u rest] by force
    then show ?thesis using that(1) files by (auto simp: file_entries_two)
  qed
  show ?thesis using files third each two by simp blast
qed

text \<open>
  Claim C4. The claim, with the comment "Find download links" over the three patterns
  and the docstring ("extract available files"), says that an anchor matched by any of the
  three download patterns, also one matched by the third pattern only, gets a file entry
  when its description is longer than 3. The code does not do that. The anchor of
  \<open>downloads_anchor\<close> has the text "Get it here", longer than 3; its href contains
  "downloads" and is matched by the third pattern and by neither of the first two; the
  match is a plain string, the tuple test drops it, and no file entry is produced.
\<close>

theorem download_third_pattern_only:
  "findall True link_pattern downloads_anchor = [FTuple [''/downloads/x'', ''Get it here'']]
   \<and> 3 < length (collapse_spaces (strip ''Get it here''))
   \<and> findall True (download_patterns ! 0) downloads_anchor = []
   \<and> findall True (download_patterns ! 1) downloads_anchor = []
   \<and> findall True (download_patterns ! 2) downloads_anchor = [FStr ''/downloads/x'']
   \<and> dl_files (parse_downloads_html insertion_order downloads_anchor ''u'') = []"
  by code_simp

text \<open>
  A page with one anchor for each of the first two patterns: both entries are produced,
  the description of the second with its double space collapsed.
\<close>

theorem download_files_from_anchor_patterns_witness:
  "dl_files (parse_downloads_html insertion_order package_anchor ''u'') =
     [\<lparr>file_url = ''report.JSON'', file_description = ''The report'', file_format = ''json''\<rparr>,
      \<lparr>file_url = ''/full/pkg'', file_description = ''Full package'',
        file_format = ''unknown''\<rparr>]
   \<and> FTuple [''/full/pkg'', ''Full  package'']
        \<in> set (findall True (download_patterns ! 1) package_anchor)
   \<and> \<lparr>file_url = ''/full/pkg'',
        file_description = collapse_spaces (strip ''Full  package''),
        file_format = file_ext ''/full/pkg''\<rparr>
        \<in> set (dl_files (parse_downloads_html insertion_order package_anchor ''u''))"
proof -
  have v: "file_entries (take 2 download_patterns) package_anchor =
     [\<lparr>file_url = ''report.JSON'', file_description = ''The report'', file_format = ''json''\<rparr>,
      \<lparr>file_url = ''/full/pkg'', file_description = ''Full package'',
        file_format = ''unknown''\<rparr>]"
    by code_simp
  have p: "download_patterns ! 1 \<in> set (take 2 download_patterns)"
    by (simp add: download_patterns_def)
  have f: "FTuple [''/full/pkg'', ''Full  package'']
        \<in> set (findall True (download_patterns ! 1) package_anchor)"
    by code_simp
  have l: "3 < length (collapse_spaces (strip ''Full  package''))"
    by code_simp
  note t = download_files_from_anchor_patterns[where order = insertion_order
        and html = package_anchor and url = "''u''", OF refl]
  have "\<lparr>file_url = ''/full/pkg'',
        file_description = collapse_spaces (strip ''Full  package''),
        file_format = file_ext ''/full/pkg''\<rparr>
        \<in> set (dl_files (parse_downloads_html insertion_order package_anchor ''u''))"
    using t[THEN conjunct2, THEN conjunct2, rule_format, OF p, of "''/full/pkg''"
        "''Full  package''" "[]"] f l
    by blast
  then show ?thesis using t v f by simp
qed

section \<open>Properties of the matcher\<close>

lemma lits_Cons: "lits (c # w) = Seq (Lit c) (lits w)"
  by (simp add: lits_def)

lemma lits_match:
  "m False (lits w) (s, g) =
     (if take (length w) s = w then [(drop (length w) s, g)] else [])"
proof (induction w arbitrary: s)
  case Nil
  then show ?case by (simp add: lits_def)
next
  case (Cons c w)
  show ?case
  proof (cases s)
    case Nil
    then show ?thesis by (simp add: lits_Cons)
  next
    case (Cons d ds)
    then show ?thesis using Cons.IH[of ds] by (simp add: lits_Cons)
  qed
qed

lemma star_cases:
  assumes "st' \<in> set (m ic (Star a) st)"
  shows "st' = st \<or> (\<exists>st1. st1 \<in> set (m ic a st) \<and> length (fst st1) < length (fst st) \<and>
        st' \<in> set (m ic (Star a) st1))"
proof -
  have eq: "m ic (Star a) st = concat (map (\<lambda>st1. if length (fst st1) < length (fst st)
            then m ic (Star a) st1 else []) (m ic a st)) @ [st]"
    by (rule m.simps(7))
  have "st' \<in> set (concat (map (\<lambda>st1. if length (fst st1) < length (fst st)
            then m ic (Star a) st1 else []) (m ic a st)) @ [st])"
    using assms unfolding eq .
  then show ?thesis
    by (auto split: if_splits)
qed

lemma m_length:
  "st' \<in> set (m ic r st) \<Longrightarrow> length (fst st') \<le> length (fst st)"
proof (induction ic r st arbitrary: st' rule: m.induct)
  case (1 ic st)
  then show ?case by simp
next
  case (2 ic c s g)
  then show ?case by (auto split: list.splits if_splits)
next
  case (3 ic neg items s g)
  then show ?case by (auto split: list.splits if_splits)
next
  case (4 ic a b st)
  from "4.prems" obtain st1 where a: "st1 \<in> set (m ic a st)" and b: "st' \<in> set (m ic b st1)"
    by auto
  have "length (fst st1) \<le> length (fst st)" using "4.IH"(1)[OF a] .
  moreover have "length (fst st') \<le> length (fst st1)" using "4.IH"(2)[OF a b] .
  ultimately show ?case by simp
next
  case (5 ic a b st)
  from "5.prems" have "st' \<in> set (m ic a st) \<or> st' \<in> set (m ic b st)" by simp
  then show ?case using "5.IH" by blast
next
  case (6 ic a st)
  from "6.prems" have "st' \<in> set (m ic a st) \<or> st' = st" by auto
  then show ?case using "6.IH" by blast
next
  case (7 ic a st)
  from star_cases[OF "7.prems"] consider "st' = st"
    | st1 where "st1 \<in> set (m ic a st)" "length (fst st1) < length (fst st)"
        "st' \<in> set (m ic (Star a) st1)"
    by blast
  then show ?case
  proof cases
    case 1
    then show ?thesis by simp
  next
    case 2
    then show ?thesis using "7.IH"(2)[OF 2(1) 2(2) 2(3)] by simp
  qed
next
  case (8 ic n a s g)
  then show ?case by auto
qed

lemma caps_unchanged:
  "ngroups r = 0 \<Longrightarrow> st' \<in> set (m ic r st) \<Longrightarrow> snd st' = snd st"
proof (induction ic r st arbitrary: st' rule: m.induct)
  case (1 ic st)
  then show ?case by simp
next
  case (2 ic c s g)
  then show ?case by (auto split: list.splits if_splits)
next
  case (3 ic neg items s g)
  then show ?case by (auto split: list.splits if_splits)
next
  case (4 ic a b st)
  from "4.prems" obtain st1 where a: "st1 \<in> set (m ic a st)" and b: "st' \<in> set (m ic b st1)"
    by auto
  have "snd st1 = snd st" using "4.IH"(1)[OF _ a] "4.prems"(1) by simp
  moreover have "snd st' = snd st1" using "4.IH"(2)[OF a _ b] "4.prems"(1) by simp
  ultimately show ?case by simp
next
  case (5 ic a b st)
  from "5.prems" have "st' \<in> set (m ic a st) \<or> st' \<in> set (m ic b st)" by simp
  moreover have "ngroups a = 0" "ngroups b = 0" using "5.prems"(1) by simp_all
  ultimately show ?case using "5.IH" by blast
next
  case (6 ic a st)
  from "6.prems" have "st' \<in> set (m ic a st) \<or> st' = st" by auto
  moreover have "ngroups a = 0" using "6.prems"(1) by simp
  ultimately show ?case using "6.IH" by blast
next
  case (7 ic a st)
  from star_cases[OF "7.prems"(2)] consider "st' = st"
    | st1 where "st1 \<in> set (m ic a st)" "length (fst st1) < length (fst st)"
        "st' \<in> set (m ic (Star a) st1)"
    by blast
  then show ?case
  proof cases
    case 1
    then show ?thesis by simp
  next
    case 2
    have "snd st1 = snd st" using "7.IH"(1)[OF _ 2(1)] "7.prems"(1) by simp
    moreover have "snd st' = snd st1" using "7.IH"(2)[OF 2(1) 2(2) _ 2(3)] "7.prems"(1) by simp
    ultimately show ?thesis by simp
  qed
next
  case (8 ic n a s g)
  then show ?case by simp
qed

lemma finditer_from_match:
  "(whole, g) \<in> set (finditer ic r s) \<Longrightarrow> \<exists>t rest. match_at ic r t = Some (rest, g)"
proof (induction ic r s rule: finditer.induct)
  case (1 ic r)
  then show ?case by (auto split: option.splits) metis
next
  case (2 ic r c cs)
  show ?case
  proof (cases "match_at ic r (c # cs)")
    case None
    then show ?thesis using 2 by auto
  next
    case (Some st)
    obtain rest g0 where st: "st = (rest, g0)" by (cases st)
    show ?thesis
    proof (cases "g = g0")
      case True
      then show ?thesis using Some st by blast
    next
      case False
      then show ?thesis using 2 Some st by (auto split: if_splits)
    qed
  qed
qed

lemma match_at_in_m:
  "match_at ic r t = Some st \<Longrightarrow> st \<in> set (m ic r (t, []))"
  by (auto simp: match_at_def split: list.splits)

lemma caps_grow:
  "st' \<in> set (m ic r st) \<Longrightarrow> \<exists>h. snd st' = h @ snd st \<and> fst ` set h \<subseteq> group_ids r"
proof (induction ic r st arbitrary: st' rule: m.induct)
  case (1 ic st)
  then show ?case by simp
next
  case (2 ic c s g)
  then show ?case by (auto split: list.splits if_splits)
next
  case (3 ic neg items s g)
  then show ?case by (auto split: list.splits if_splits)
next
  case (4 ic a b st)
  from "4.prems" obtain st1 where a: "st1 \<in> set (m ic a st)" and b: "st' \<in> set (m ic b st1)"
    by auto
  obtain h1 where h1: "snd st1 = h1 @ snd st" "fst ` set h1 \<subseteq> group_ids a"
    using "4.IH"(1)[OF a] by blast
  obtain h2 where h2: "snd st' = h2 @ snd st1" "fst ` set h2 \<subseteq> group_ids b"
    using "4.IH"(2)[OF a b] by blast
  have "snd st' = (h2 @ h1) @ snd st" using h1 h2 by simp
  moreover have "fst ` set (h2 @ h1) \<subseteq> group_ids (Seq a b)" using h1 h2 by auto
  ultimately show ?case by blast
next
  case (5 ic a b st)
  from "5.prems" have "st' \<in> set (m ic a st) \<or> st' \<in> set (m ic b st)" by simp
  then show ?case
  proof
    assume "st' \<in> set (m ic a st)"
    then obtain h where "snd st' = h @ snd st" "fst ` set h \<subseteq> group_ids a"
      using "5.IH"(1) by blast
    then show ?thesis by auto
  next
    assume "st' \<in> set (m ic b st)"
    then obtain h where "snd st' = h @ snd st" "fst ` set h \<subseteq> group_ids b"
      using "5.IH"(2) by blast
    then show ?thesis by auto
  qed
next
  case (6 ic a st)
  from "6.prems" have "st' \<in> set (m ic a st) \<or> st' = st" by auto
  then show ?case
  proof
    assume "st' \<in> set (m ic a st)"
    then show ?thesis using "6.IH" by simp
  next
    assume "st' = st"
    then show ?thesis by simp
  qed
next
  case (7 ic a st)
  from star_cases[OF "7.prems"] consider "st' = st"
    | st1 where "st1 \<in> set (m ic a st)" "length (fst st1) < length (fst st)"
        "st' \<in> set (m ic (Star a) st1)"
    by blast
  then show ?case
  proof cases
    case 1
    then show ?thesis by simp
  next
    case 2
    obtain h1 where h1: "snd st1 = h1 @ snd st" "fst ` set h1 \<subseteq> group_ids a"
      using "7.IH"(1)[OF 2(1)] by blast
    obtain h2 where h2: "snd st' = h2 @ snd st1" "fst ` set h2 \<subseteq> group_ids (Star a)"
      using "7.IH"(2)[OF 2(1) 2(2) 2(3)] by blast
    have "snd st' = (h2 @ h1) @ snd st" using h1 h2 by simp
    moreover have "fst ` set (h2 @ h1) \<subseteq> group_ids (Star a)" using h1 h2 by auto
    ultimately show ?thesis by blast
  qed
next
  case (8 ic n a s g)
  from "8.prems" obtain s1 g1 where in1: "(s1, g1) \<in> set (m ic a (s, g))"
    and st': "st' = (s1, (n, take (length s - length s1) s) # g1)"
    by auto
  obtain h where h: "g1 = h @ g" "fst ` set h \<subseteq> group_ids a"
    using "8.IH"[OF in1] by auto
  have "snd st' = ((n, take (length s - length s1) s) # h) @ snd (s, g)"
    using st' h by simp
  moreover have "fst ` set ((n, take (length s - length s1) s) # h) \<subseteq> group_ids (Grp n a)"
    using h by auto
  ultimately show ?case by blast
qed

lemma group_kept:
  assumes "st' \<in> set (m ic r st)" and "n \<notin> group_ids r"
  shows "match_group (snd st') n = match_group (snd st) n"
proof -
  obtain h where h: "snd st' = h @ snd st" "fst ` set h \<subseteq> group_ids r"
    using caps_grow[OF assms(1)] by blast
  have "n \<notin> fst ` set h" using h(2) assms(2) by blast
  then have "map_of h n = None" by (simp add: map_of_eq_None_iff)
  then show ?thesis using h(1) by (simp add: match_group_def map_add_def)
qed

lemma group_set:
  "st' \<in> set (m ic r st) \<Longrightarrow> always_sets n r \<Longrightarrow> n \<in> fst ` set (snd st')"
proof (induction ic r st arbitrary: st' rule: m.induct)
  case (4 ic a b st)
  from "4.prems" obtain st1 where a: "st1 \<in> set (m ic a st)" and b: "st' \<in> set (m ic b st1)"
    by auto
  obtain h where h: "snd st' = h @ snd st1"
    using caps_grow[OF b] by blast
  from "4.prems"(2) have "always_sets n a \<or> always_sets n b" by simp
  then show ?case
  proof
    assume "always_sets n a"
    then have "n \<in> fst ` set (snd st1)" using "4.IH"(1)[OF a] by simp
    then show ?thesis using h by auto
  next
    assume "always_sets n b"
    then show ?thesis using "4.IH"(2)[OF a b] by simp
  qed
next
  case (5 ic a b st)
  from "5.prems" have "st' \<in> set (m ic a st) \<or> st' \<in> set (m ic b st)" by simp
  moreover have "always_sets n a" "always_sets n b" using "5.prems"(2) by simp_all
  ultimately show ?case using "5.IH" by blast
next
  case (8 ic k a s g)
  from "8.prems" obtain s1 g1 where in1: "(s1, g1) \<in> set (m ic a (s, g))"
    and st': "st' = (s1, (k, take (length s - length s1) s) # g1)"
    by auto
  show ?case
  proof (cases "k = n")
    case True
    then show ?thesis using st' by simp
  next
    case False
    then have "always_sets n a" using "8.prems"(2) by simp
    then have "n \<in> fst ` set (snd (s1, g1))" using "8.IH"[OF in1] by blast
    then show ?thesis using st' by auto
  qed
qed simp_all

lemma search_from_match:
  "search ic r s = Some g \<Longrightarrow> \<exists>t rest. match_at ic r t = Some (rest, g)"
proof (induction s)
  case Nil
  then obtain rest where "match_at ic r [] = Some (rest, g)"
    by (cases "match_at ic r []") auto
  then show ?case by blast
next
  case (Cons c cs)
  show ?case
  proof (cases "match_at ic r (c # cs)")
    case None
    then show ?thesis using Cons by simp
  next
    case (Some st)
    then show ?thesis using Cons.prems by (cases st) auto
  qed
qed

lemma searched_group_set:
  assumes "search ic r s = Some g" and "always_sets n r"
  shows "map_of g n \<noteq> None"
proof -
  obtain t rest where "match_at ic r t = Some (rest, g)"
    using search_from_match[OF assms(1)] by blast
  then have "(rest, g) \<in> set (m ic r (t, []))" by (rule match_at_in_m)
  then have "n \<in> fst ` set g" using group_set[OF _ assms(2)] by fastforce
  then show ?thesis by (simp add: map_of_eq_None_iff)
qed

text \<open>
  Group 1 lies on every path through the title pattern, the description pattern and the
  three version patterns, so by \<open>searched_group_set\<close> it is set in each of their matches
  and \<open>match_group\<close> returns the captured text there.
\<close>

lemma searched_patterns_set_group:
  "always_sets 1 title_pattern" "always_sets 1 desc_pattern"
  "\<forall>p\<in>set version_patterns. always_sets 1 p"
  by (simp_all add: title_pattern_def desc_pattern_def version_patterns_def seqs_def)

lemma seq_cases:
  "st' \<in> set (m ic (Seq a b) st) \<Longrightarrow> \<exists>st1\<in>set (m ic a st). st' \<in> set (m ic b st1)"
  by auto

lemma grp_cases:
  "st' \<in> set (m ic (Grp n a) (s, g)) \<Longrightarrow>
   \<exists>s1 g1. (s1, g1) \<in> set (m ic a (s, g))
     \<and> st' = (s1, (n, take (length s - length s1) s) # g1)"
  by auto

lemma grp_first_char:
  assumes "st' \<in> set (m ic (Grp n (Seq (Cls neg items) r)) (s, g))"
  shows "\<exists>d ds x. s = d # ds \<and> in_class ic items d \<noteq> neg \<and> match_group (snd st') n = d # x"
proof -
  from grp_cases[OF assms] obtain s1 g1
    where in1: "(s1, g1) \<in> set (m ic (Seq (Cls neg items) r) (s, g))"
    and st': "st' = (s1, (n, take (length s - length s1) s) # g1)"
    by blast
  from seq_cases[OF in1] obtain st0 where c: "st0 \<in> set (m ic (Cls neg items) (s, g))"
    and r: "(s1, g1) \<in> set (m ic r st0)"
    by blast
  from c obtain d ds where s: "s = d # ds" and d: "in_class ic items d \<noteq> neg"
    and st0: "st0 = (ds, g)"
    by (cases s) (auto split: if_splits)
  have "length s1 \<le> length ds" using m_length[OF r] st0 by simp
  then have "take (length s - length s1) s = d # take (length ds - length s1) ds"
    using s by (simp add: Suc_diff_le)
  then show ?thesis using s d st' by (simp add: match_group_def)
qed

lemma alts_lits_match:
  "ws \<noteq> [] \<Longrightarrow> st' \<in> set (m False (alts (map lits ws)) (s, g)) \<Longrightarrow>
   \<exists>w\<in>set ws. take (length w) s = w \<and> st' = (drop (length w) s, g)"
proof (induction ws)
  case Nil
  then show ?case by simp
next
  case (Cons w ws)
  show ?case
  proof (cases ws)
    case Nil
    then show ?thesis using Cons.prems by (simp add: lits_match split: if_splits)
  next
    case (Cons v vs)
    then have "st' \<in> set (m False (lits w) (s, g))
               \<or> st' \<in> set (m False (alts (map lits ws)) (s, g))"
      using Cons.prems by simp
    then show ?thesis
    proof
      assume "st' \<in> set (m False (lits w) (s, g))"
      then show ?thesis by (simp add: lits_match split: if_splits)
    next
      assume "st' \<in> set (m False (alts (map lits ws)) (s, g))"
      then show ?thesis using Cons.IH Cons by simp
    qed
  qed
qed

lemma fhir_type_match:
  "st' \<in> set (m False (alts (map lits fhir_types)) (s, g)) \<Longrightarrow>
   \<exists>w\<in>set fhir_types. take (length w) s = w \<and> st' = (drop (length w) s, g)"
  by (rule alts_lits_match) (simp_all add: fhir_types_def)

lemma fhir_slash_pattern:
  "fhir_patterns ! 0 =
     Seq (Grp 1 (alts (map lits fhir_types)))
         (Seq (Lit (CHR ''/'')) (Seq (Grp 2 (Seq id_char (Star id_char))) Eps))"
  by (simp add: fhir_patterns_def seqs_def)

lemma fhir_slash_groups:
  assumes "st \<in> set (m False (fhir_patterns ! 0) (t, g0))"
  shows "match_group (snd st) 1 \<in> set fhir_types \<and> match_group (snd st) 2 \<noteq> []
         \<and> take (length (match_group (snd st) 1)) t = match_group (snd st) 1"
proof -
  let ?R = "Seq (Lit (CHR ''/'')) (Seq (Grp 2 (Seq id_char (Star id_char))) Eps)"
  from assms obtain st1 where g1: "st1 \<in> set (m False (Grp 1 (alts (map lits fhir_types))) (t, g0))"
    and rest: "st \<in> set (m False ?R st1)"
    unfolding fhir_slash_pattern using seq_cases by blast
  from grp_cases[OF g1] obtain s1 c1
    where in1: "(s1, c1) \<in> set (m False (alts (map lits fhir_types)) (t, g0))"
    and st1: "st1 = (s1, (1, take (length t - length s1) t) # c1)"
    by blast
  obtain w where w: "w \<in> set fhir_types" "take (length w) t = w" "s1 = drop (length w) t"
    using fhir_type_match[OF in1] by auto
  have "length (take (length w) t) = length w" using w(2) by simp
  then have "length w \<le> length t" by simp
  then have "take (length t - length s1) t = w" using w by simp
  then have one: "match_group (snd st1) 1 = w" using st1 by (simp add: match_group_def)
  have "1 \<notin> group_ids ?R" by (simp add: id_char_def)
  then have kept: "match_group (snd st) 1 = w" using group_kept[OF rest] one by simp
  from seq_cases[OF rest] obtain st2
    where two0: "st \<in> set (m False (Seq (Grp 2 (Seq id_char (Star id_char))) Eps) st2)"
    by blast
  from seq_cases[OF two0] obtain st3
    where two1: "st3 \<in> set (m False (Grp 2 (Seq id_char (Star id_char))) st2)"
      and "st \<in> set (m False Eps st3)"
    by blast
  then have two: "st \<in> set (m False (Grp 2 (Seq id_char (Star id_char))) st2)"
    by simp
  obtain s2 c2 where st2: "st2 = (s2, c2)" by (cases st2)
  have "\<exists>d ds x. s2 = d # ds \<and> in_class False
          [CRange (CHR ''a'') (CHR ''z''), CRange (CHR ''A'') (CHR ''Z''),
           CRange (CHR ''0'') (CHR ''9''), CChar (CHR ''.''), CChar (CHR ''_''),
           CChar (CHR ''-'')] d \<noteq> False \<and> match_group (snd st) 2 = d # x"
    using two unfolding st2 id_char_def by (rule grp_first_char)
  then have "match_group (snd st) 2 \<noteq> []" by auto
  then show ?thesis using kept w by simp
qed

lemma fhir_keyword_pattern:
  "fhir_patterns ! 1 =
     Seq (lits ''FHIR'')
      (Seq (Seq space (Star space))
        (Seq (Grp 1 (Seq (Cls False [CRange (CHR ''A'') (CHR ''Z'')])
                         (Seq (Cls False [CRange (CHR ''a'') (CHR ''z''),
                                          CRange (CHR ''A'') (CHR ''Z'')])
                              (Star (Cls False [CRange (CHR ''a'') (CHR ''z''),
                                                CRange (CHR ''A'') (CHR ''Z'')])))))
          (Seq (Star space) (Seq (Opt (Lit (CHR '':''))) (Seq (Star space)
            (Seq (Opt (Grp 2 (Seq id_char (Star id_char)))) Eps))))))"
  by (simp add: fhir_patterns_def seqs_def)

lemma fhir_keyword_groups:
  assumes "st \<in> set (m False (fhir_patterns ! 1) (t, g0))"
  shows "take (length ''FHIR'') t = ''FHIR'' \<and> (\<exists>d x. match_group (snd st) 1 = d # x \<and> CHR ''A'' \<le> d \<and> d \<le> CHR ''Z'')"
proof -
  let ?G = "Grp 1 (Seq (Cls False [CRange (CHR ''A'') (CHR ''Z'')])
                         (Seq (Cls False [CRange (CHR ''a'') (CHR ''z''),
                                          CRange (CHR ''A'') (CHR ''Z'')])
                              (Star (Cls False [CRange (CHR ''a'') (CHR ''z''),
                                                CRange (CHR ''A'') (CHR ''Z'')]))))"
  let ?R = "Seq (Star space) (Seq (Opt (Lit (CHR '':''))) (Seq (Star space)
            (Seq (Opt (Grp 2 (Seq id_char (Star id_char)))) Eps)))"
  from assms obtain st0 where k: "st0 \<in> set (m False (lits ''FHIR'') (t, g0))"
    and r0: "st \<in> set (m False (Seq (Seq space (Star space)) (Seq ?G ?R)) st0)"
    unfolding fhir_keyword_pattern using seq_cases by blast
  from seq_cases[OF r0] obtain st1 where r1: "st \<in> set (m False (Seq ?G ?R) st1)"
    by blast
  from seq_cases[OF r1] obtain st2 where g: "st2 \<in> set (m False ?G st1)"
    and rest: "st \<in> set (m False ?R st2)"
    by blast
  have key: "take (length ''FHIR'') t = ''FHIR''"
  proof (rule ccontr)
    assume "take (length ''FHIR'') t \<noteq> ''FHIR''"
    then have "m False (lits ''FHIR'') (t, g0) = []" by (simp only: lits_match if_False)
    then show False using k by simp
  qed
  obtain s1 c1 where st1: "st1 = (s1, c1)" by (cases st1)
  obtain d x where d: "match_group (snd st2) 1 = d # x"
    "in_class False [CRange (CHR ''A'') (CHR ''Z'')] d \<noteq> False"
    using grp_first_char[OF g[unfolded st1]] by blast
  have "1 \<notin> group_ids ?R" by (simp add: id_char_def space_def)
  then have "match_group (snd st) 1 = d # x" using group_kept[OF rest] d(1) by simp
  moreover have "CHR ''A'' \<le> d \<and> d \<le> CHR ''Z''" using d(2) by (simp add: in_class_def)
  ultimately show ?thesis using key by blast
qed

lemma findall_two_groups:
  assumes "ngroups r = 2" and "x \<in> set (findall ic r s)"
  shows "\<exists>t st. st \<in> set (m ic r (t, []))
           \<and> x = FTuple [match_group (snd st) 1, match_group (snd st) 2]"
proof -
  from assms obtain whole g where wg: "(whole, g) \<in> set (finditer ic r s)"
    and x: "x = FTuple (map (match_group g) [1..<Suc 2])"
    by (auto simp: findall_def)
  obtain t rest where "match_at ic r t = Some (rest, g)"
    using finditer_from_match[OF wg] by blast
  then have "(rest, g) \<in> set (m ic r (t, []))" by (rule match_at_in_m)
  moreover have "[1..<Suc 2] = [1, 2]" by (simp add: upt_rec)
  ultimately show ?thesis using x by force
qed

lemma ngroups_fhir_patterns:
  "ngroups (fhir_patterns ! 0) = 2" "ngroups (fhir_patterns ! 1) = 2"
  by code_simp+

subsection \<open>Matching with \<^verbatim>\<open>re.IGNORECASE\<close> does not depend on the case of the text\<close>

lemma upper_lower_chars:
  "is_upper d \<Longrightarrow> \<not> is_upper (with_bit5 True d) \<and> has_upper (with_bit5 True d)
     \<and> with_bit5 False (with_bit5 True d) = d \<and> \<not> has_upper d"
  by (cases d) (auto simp: is_upper_def has_upper_def)

lemma lower_lower: "lower (lower d) = lower d"
  using upper_lower_chars[of d] by (simp add: lower_def)

lemma lit_lower:
  "(lower d = c \<or> lower (lower d) = lower c) = (d = c \<or> lower d = lower c)"
  using lower_lower[of d] by auto

lemma in_class_lower: "in_class True items (lower d) = in_class True items d"
proof (cases "is_upper d")
  case True
  then have "upper (lower d) = d" "upper d = d" "lower (lower d) = lower d"
    using upper_lower_chars[of d] by (simp_all add: lower_def upper_def)
  then show ?thesis by (auto simp: in_class_def)
next
  case False
  then have "lower d = d" by (simp add: lower_def)
  then show ?thesis by (auto simp: in_class_def)
qed

lemma star_unfold:
  "m ic (Star a) st =
     concat (map (\<lambda>st'. if length (fst st') < length (fst st) then m ic (Star a) st' else [])
                 (m ic a st)) @ [st]"
  by (rule m.simps(7))

lemma length_lower_state: "length (fst (lower_state st)) = length (fst st)"
  by (simp add: lower_state_def)

lemma m_lower:
  "ic \<Longrightarrow> m ic r (lower_state st) = map lower_state (m ic r st)"
proof (induction ic r st rule: m.induct)
  case (1 ic st)
  then show ?case by simp
next
  case (2 ic c s g)
  then show ?case
    by (cases s) (simp_all add: lower_state_def lit_lower)
next
  case (3 ic neg items s g)
  then show ?case
    by (cases s) (simp_all add: lower_state_def in_class_lower)
next
  case (4 ic a b st)
  have a: "m ic a (lower_state st) = map lower_state (m ic a st)"
    using "4.IH"(1) "4.prems" by simp
  have b: "\<And>x. x \<in> set (m ic a st) \<Longrightarrow> m ic b (lower_state x) = map lower_state (m ic b x)"
    using "4.IH"(2) "4.prems" by simp
  have "m ic (Seq a b) (lower_state st)
        = concat (map (\<lambda>x. m ic b (lower_state x)) (m ic a st))"
    by (simp add: a comp_def)
  also have "\<dots> = concat (map (\<lambda>x. map lower_state (m ic b x)) (m ic a st))"
    by (intro arg_cong[where f = concat] map_cong refl) (rule b)
  also have "\<dots> = map lower_state (m ic (Seq a b) st)"
    by (simp add: map_concat comp_def)
  finally show ?case .
next
  case (5 ic a b st)
  then show ?case by simp
next
  case (6 ic a st)
  then show ?case by simp
next
  case (7 ic a st)
  let ?f = "\<lambda>x. if length (fst x) < length (fst st) then m ic (Star a) x else []"
  have a: "m ic a (lower_state st) = map lower_state (m ic a st)"
    using "7.IH"(1) "7.prems" by simp
  have b: "\<And>x. x \<in> set (m ic a st) \<Longrightarrow> length (fst x) < length (fst st) \<Longrightarrow>
             m ic (Star a) (lower_state x) = map lower_state (m ic (Star a) x)"
    using "7.IH"(2) "7.prems" by simp
  have "m ic (Star a) (lower_state st)
        = concat (map (\<lambda>x. if length (fst x) < length (fst st)
                             then m ic (Star a) (lower_state x) else []) (m ic a st))
          @ [lower_state st]"
    by (simp add: star_unfold[of ic a "lower_state st"] a comp_def length_lower_state)
  also have "concat (map (\<lambda>x. if length (fst x) < length (fst st)
                             then m ic (Star a) (lower_state x) else []) (m ic a st))
        = concat (map (\<lambda>x. map lower_state (?f x)) (m ic a st))"
  proof -
    have "\<And>x. x \<in> set (m ic a st) \<Longrightarrow>
            (if length (fst x) < length (fst st) then m ic (Star a) (lower_state x) else [])
            = map lower_state (?f x)"
      using b by simp
    then show ?thesis by (intro arg_cong[where f = concat] map_cong refl)
  qed
  also have "concat (map (\<lambda>x. map lower_state (?f x)) (m ic a st)) @ [lower_state st]
        = map lower_state (concat (map ?f (m ic a st)) @ [st])"
    by (simp add: map_concat comp_def)
  also have "\<dots> = map lower_state (m ic (Star a) st)"
    by (simp add: star_unfold[of ic a st])
  finally show ?case .
next
  case (8 ic n a s g)
  have a: "m ic a (lower_state (s, g)) = map lower_state (m ic a (s, g))"
    using "8.IH" "8.prems" by simp
  have "lower_state (s, g) = (map lower s, map (\<lambda>(n, x). (n, map lower x)) g)"
    by (simp add: lower_state_def)
  then have "m ic (Grp n a) (lower_state (s, g))
      = map (\<lambda>(s', g'). (s', (n, take (length s - length s') (map lower s)) # g'))
          (map lower_state (m ic a (s, g)))"
    using a by simp
  also have "\<dots> = map lower_state (m ic (Grp n a) (s, g))"
    by (simp add: lower_state_def case_prod_beta take_map comp_def)
  finally show ?case .
qed

lemma match_at_lower:
  "match_at True r (map lower s) = map_option lower_state (match_at True r s)"
proof -
  have "m True r (map lower s, []) = map lower_state (m True r (s, []))"
    using m_lower[of True r "(s, [])"] by (simp add: lower_state_def)
  then show ?thesis by (simp add: match_at_def split: list.splits)
qed

lemma search_lower:
  "search True r (map lower s) = map_option (map (\<lambda>(n, x). (n, map lower x))) (search True r s)"
proof (induction s)
  case Nil
  then show ?case
    using match_at_lower[of r "[]"]
    by (cases "match_at True r []") (auto simp: lower_state_def)
next
  case (Cons c cs)
  show ?case
  proof (cases "match_at True r (c # cs)")
    case None
    then have "match_at True r (map lower (c # cs)) = None"
      using match_at_lower[of r "c # cs"] by simp
    then show ?thesis using None Cons by simp
  next
    case (Some st)
    obtain rest g where st: "st = (rest, g)" by (cases st)
    have "match_at True r (map lower (c # cs)) = Some (lower_state (rest, g))"
      using match_at_lower[of r "c # cs"] Some st by simp
    then show ?thesis using Some st by (simp add: lower_state_def)
  qed
qed

lemma finditer_lower:
  "ic \<Longrightarrow> finditer ic r (map lower s) =
     map (\<lambda>(w, g). (map lower w, map (\<lambda>(n, x). (n, map lower x)) g)) (finditer ic r s)"
proof (induction ic r s rule: finditer.induct)
  case (1 ic r)
  then have ic: "ic = True" by simp
  show ?case
    using match_at_lower[of r "[]"] unfolding ic
    by (cases "match_at True r []") (auto simp: lower_state_def)
next
  case (2 ic r c cs)
  then have ic: "ic = True" by simp
  show ?case
  proof (cases "match_at True r (c # cs)")
    case None
    then have "match_at True r (map lower (c # cs)) = None"
      using match_at_lower[of r "c # cs"] by simp
    then show ?thesis using None "2.IH"(1) ic by simp
  next
    case (Some st)
    obtain rest g where st: "st = (rest, g)" by (cases st)
    have some: "match_at ic r (c # cs) = Some (rest, g)" using Some st ic by simp
    have low: "match_at True r (lower c # map lower cs)
                 = Some (map lower rest, map (\<lambda>(n, x). (n, map lower x)) g)"
      using match_at_lower[of r "c # cs"] Some st by (simp add: lower_state_def)
    have tk: "take (Suc (length cs) - length rest) (lower c # map lower cs)
                = map lower (take (Suc (length cs) - length rest) (c # cs))"
      using take_map[of "Suc (length cs) - length rest" lower "c # cs"] by simp
    show ?thesis
    proof (cases "length rest < Suc (length cs)")
      case True
      have "finditer ic r (map lower rest) =
          map (\<lambda>(w, g). (map lower w, map (\<lambda>(n, x). (n, map lower x)) g)) (finditer ic r rest)"
        using "2.IH"(2)[OF some refl True] ic by simp
      then show ?thesis using low some True ic tk by simp
    next
      case False
      have "finditer ic r (map lower cs) =
          map (\<lambda>(w, g). (map lower w, map (\<lambda>(n, x). (n, map lower x)) g)) (finditer ic r cs)"
        using "2.IH"(3)[OF some refl False] ic by simp
      then show ?thesis using low some False ic tk by simp
    qed
  qed
qed

lemma findall_lower_length:
  "length (findall True r (map lower s)) = length (findall True r s)"
  by (simp add: findall_def finditer_lower)

lemma search_lower_None:
  "(search True r (map lower s) = None) = (search True r s = None)"
  by (simp add: search_lower)

section \<open>Case sensitivity of the resource references\<close>

lemma fhir_slash_found:
  assumes "x \<in> set (findall False (fhir_patterns ! 0) html)"
  shows "\<exists>T i. x = FTuple [T, i] \<and> T \<in> set fhir_types \<and> i \<noteq> []"
proof -
  obtain t st where "st \<in> set (m False (fhir_patterns ! 0) (t, []))"
    and "x = FTuple [match_group (snd st) 1, match_group (snd st) 2]"
    using findall_two_groups[OF ngroups_fhir_patterns(1) assms] by blast
  then show ?thesis using fhir_slash_groups by blast
qed

lemma fhir_keyword_found:
  assumes "x \<in> set (findall False (fhir_patterns ! 1) html)"
  shows "\<exists>d r i. x = FTuple [d # r, i] \<and> CHR ''A'' \<le> d \<and> d \<le> CHR ''Z''"
proof -
  obtain t st where "st \<in> set (m False (fhir_patterns ! 1) (t, []))"
    and "x = FTuple [match_group (snd st) 1, match_group (snd st) 2]"
    using findall_two_groups[OF ngroups_fhir_patterns(2) assms] by blast
  then show ?thesis using fhir_keyword_groups by metis
qed

lemma add_resource_set:
  "set (foldl add_resource acc ms) \<subseteq>
     set acc \<union> {T @ '': '' @ i | T i rest. FTuple (T # i # rest) \<in> set ms \<and> i \<noteq> []}"
proof (induction ms arbitrary: acc)
  case Nil
  then show ?case by simp
next
  case (Cons a ms)
  show ?case
  proof
    fix x assume "x \<in> set (foldl add_resource acc (a # ms))"
    then have "x \<in> set (foldl add_resource (add_resource acc a) ms)" by simp
    then consider "x \<in> set (add_resource acc a)"
      | T i rest where "x = T @ '': '' @ i" "FTuple (T # i # rest) \<in> set ms" "i \<noteq> []"
      using Cons.IH[of "add_resource acc a"] by blast
    then show "x \<in> set acc \<union> {T @ '': '' @ i | T i rest.
                  FTuple (T # i # rest) \<in> set (a # ms) \<and> i \<noteq> []}"
    proof cases
      case 1
      then consider "x \<in> set acc"
        | T i rest where "x = T @ '': '' @ i" "a = FTuple (T # i # rest)" "i \<noteq> []"
        by (auto simp: add_resource_def set_add_def split: fmatch.splits list.splits if_splits)
      then show ?thesis
      proof cases
        case 1
        then show ?thesis by simp
      next
        case 2
        then have "FTuple (T # i # rest) \<in> set (a # ms)" by simp
        then show ?thesis using 2(1,3) by blast
      qed
    next
      case 2
      then have "FTuple (T # i # rest) \<in> set (a # ms)" by simp
      then show ?thesis using 2(1,3) by blast
    qed
  qed
qed

lemma finditer_Nil:
  "(\<And>t. set t \<subseteq> set s \<Longrightarrow> match_at ic r t = None) \<Longrightarrow> finditer ic r s = []"
proof (induction s)
  case Nil
  then show ?case by simp
next
  case (Cons c cs)
  have "match_at ic r (c # cs) = None" using Cons.prems by simp
  moreover have "finditer ic r cs = []"
    using Cons.IH Cons.prems by (simp add: subset_insertI2)
  ultimately show ?case by simp
qed

lemma fhir_types_capital:
  "w \<in> set fhir_types \<Longrightarrow> \<exists>c\<in>set w. CHR ''A'' \<le> c \<and> c \<le> CHR ''Z''"
  by (auto simp: fhir_types_def)

lemma fhir_match_capital:
  assumes "p \<in> set fhir_patterns" and "match_at False p t = Some st"
  shows "\<exists>c\<in>set t. CHR ''A'' \<le> c \<and> c \<le> CHR ''Z''"
proof -
  have in_m: "st \<in> set (m False p (t, []))" using assms(2) by (rule match_at_in_m)
  have "p = fhir_patterns ! 0 \<or> p = fhir_patterns ! 1"
    using assms(1) by (auto simp: fhir_patterns_def)
  then show ?thesis
  proof
    assume p: "p = fhir_patterns ! 0"
    obtain w where w: "w \<in> set fhir_types" "take (length w) t = w"
      using fhir_slash_groups[OF in_m[unfolded p]] by blast
    obtain c where c: "c \<in> set w" "CHR ''A'' \<le> c \<and> c \<le> CHR ''Z''"
      using fhir_types_capital[OF w(1)] by blast
    have "c \<in> set t" using c(1) w(2) by (metis in_set_takeD)
    then show ?thesis using c(2) by blast
  next
    assume p: "p = fhir_patterns ! 1"
    have "take (length ''FHIR'') t = ''FHIR''"
      using fhir_keyword_groups[OF in_m[unfolded p]] by blast
    then have "CHR ''F'' \<in> set (take (length ''FHIR'') t)" by simp
    then have "CHR ''F'' \<in> set t" by (rule in_set_takeD)
    then show ?thesis by (rule bexI[rotated]) simp
  qed
qed

lemma fhir_findall_Nil:
  assumes "\<forall>c\<in>set html. \<not> (CHR ''A'' \<le> c \<and> c \<le> CHR ''Z'')" and "p \<in> set fhir_patterns"
  shows "findall False p html = []"
proof -
  have "match_at False p t = None" if "set t \<subseteq> set html" for t
  proof (cases "match_at False p t")
    case None
    then show ?thesis .
  next
    case (Some st)
    then show ?thesis using fhir_match_capital[OF assms(2) Some] assms(1) that by blast
  qed
  then have "finditer False p html = []" by (rule finditer_Nil)
  then show ?thesis by (simp add: findall_def)
qed

text \<open>
  Claim C10, as amended. The extraction of FHIR resource references in
  \<^verbatim>\<open>parse_implementation_guide_html\<close> is case-sensitive. For every HTML input,
  every match of the Type/id pattern has its type written exactly as one of the five
  capitalized names, with a nonempty id; every match of the "FHIR Type id" pattern has a
  type that starts with a capital letter A-Z; every resource entry is "Type: id" for a
  match of one of the two patterns with a nonempty id; and an input without a capital
  letter A-Z, such as "valueset/abc", produces no resource entry. Title, description,
  version, section and link matching use \<^verbatim>\<open>re.IGNORECASE\<close>, and with that flag
  every pattern matches the input and the input written in lower case alike: a search
  succeeds on both or on neither, and \<^verbatim>\<open>findall\<close> finds as many matches.
\<close>

theorem fhir_references_case_sensitive:
  assumes "\<forall>xs. mset (order xs) = mset xs"
    and "info = parse_implementation_guide_html order html url"
  shows "(\<forall>x\<in>set (findall False (fhir_patterns ! 0) html).
            \<exists>T i. x = FTuple [T, i] \<and> T \<in> set fhir_types \<and> i \<noteq> [])
    \<and> (\<forall>x\<in>set (findall False (fhir_patterns ! 1) html).
            \<exists>d r i. x = FTuple [d # r, i] \<and> CHR ''A'' \<le> d \<and> d \<le> CHR ''Z'')
    \<and> (\<forall>e\<in>set (resources info). \<exists>T i rest. e = T @ '': '' @ i \<and> i \<noteq> []
            \<and> (FTuple (T # i # rest) \<in> set (findall False (fhir_patterns ! 0) html)
               \<or> FTuple (T # i # rest) \<in> set (findall False (fhir_patterns ! 1) html)))
    \<and> ((\<forall>c\<in>set html. \<not> (CHR ''A'' \<le> c \<and> c \<le> CHR ''Z'')) \<longrightarrow> resources info = [])
    \<and> (\<forall>r. (search True r (map lower html) = None) = (search True r html = None)
            \<and> length (findall True r (map lower html)) = length (findall True r html))"
proof (intro conjI ballI impI allI)
  fix x assume "x \<in> set (findall False (fhir_patterns ! 0) html)"
  then show "\<exists>T i. x = FTuple [T, i] \<and> T \<in> set fhir_types \<and> i \<noteq> []"
    by (rule fhir_slash_found)
next
  fix x assume "x \<in> set (findall False (fhir_patterns ! 1) html)"
  then show "\<exists>d r i. x = FTuple [d # r, i] \<and> CHR ''A'' \<le> d \<and> d \<le> CHR ''Z''"
    by (rule fhir_keyword_found)
next
  fix e assume e: "e \<in> set (resources info)"
  have two: "fhir_patterns = [fhir_patterns ! 0, fhir_patterns ! 1]"
    by (simp add: fhir_patterns_def)
  have r: "resources info = take 15 (sort (order (resources_set html)))"
    using assms(2) by (simp add: parse_implementation_guide_html_def)
  have "set (resources info) \<subseteq> set (sort (order (resources_set html)))"
    unfolding r by (rule set_take_subset)
  also have "\<dots> = set (resources_set html)"
    using assms(1) by (metis set_sort set_mset_mset)
  finally have "e \<in> set (resources_set html)" using e by blast
  then have "e \<in> {T @ '': '' @ i | T i rest.
       FTuple (T # i # rest)
         \<in> set (concat (map (\<lambda>pattern. findall False pattern html) fhir_patterns)) \<and> i \<noteq> []}"
    using add_resource_set[of "[]"
        "concat (map (\<lambda>pattern. findall False pattern html) fhir_patterns)"]
    unfolding resources_set_def by (simp add: subset_iff)
  then obtain T i rest where "e = T @ '': '' @ i" "i \<noteq> []"
    "FTuple (T # i # rest)
       \<in> set (concat (map (\<lambda>pattern. findall False pattern html) fhir_patterns))"
    by blast
  moreover have "set (concat (map (\<lambda>pattern. findall False pattern html) fhir_patterns))
      = set (findall False (fhir_patterns ! 0) html) \<union> set (findall False (fhir_patterns ! 1) html)"
    by (subst two) simp
  ultimately show "\<exists>T i rest. e = T @ '': '' @ i \<and> i \<noteq> []
            \<and> (FTuple (T # i # rest) \<in> set (findall False (fhir_patterns ! 0) html)
               \<or> FTuple (T # i # rest) \<in> set (findall False (fhir_patterns ! 1) html))"
    by blast
next
  assume low: "\<forall>c\<in>set html. \<not> (CHR ''A'' \<le> c \<and> c \<le> CHR ''Z'')"
  have none: "concat (map (\<lambda>pattern. findall False pattern html) fhir_patterns) = []"
    using fhir_findall_Nil[OF low] by simp
  have "resources_set html = []" unfolding resources_set_def none by simp
  moreover have "order [] = []" using assms(1) by (metis mset_zero_iff)
  ultimately show "resources info = []"
    using assms(2) by (simp add: parse_implementation_guide_html_def)
next
  fix r
  show "(search True r (map lower html) = None) = (search True r html = None)"
    by (rule search_lower_None)
next
  fix r
  show "length (findall True r (map lower html)) = length (findall True r html)"
    by (rule findall_lower_length)
qed

text \<open>
  Claim C10 as stated fails: "a reference whose type name is not written exactly as one
  of the five capitalized names produces no resource entry". The text
  "FHIR Valueset abc" names the type "Valueset", which is none of the five names, and
  the second pattern records the entry "Valueset: abc".
\<close>

theorem fhir_keyword_form_other_type:
  "resources (parse_implementation_guide_html insertion_order keyword_reference ''u'')
     = [''Valueset: abc'']
   \<and> ''Valueset'' \<notin> set fhir_types"
  by code_simp

text \<open>
  The reference "valueset/abc" produces no entry and "ValueSet/abc" produces one, which
  comes from a match of the Type/id pattern; on a page written in capitals the title,
  the description, the version, the section and the link are all found.
\<close>

theorem fhir_references_case_sensitive_witness:
  "resources (parse_implementation_guide_html insertion_order lowercase_reference ''u'') = []
   \<and> resources (parse_implementation_guide_html insertion_order exact_reference ''u'')
       = [''ValueSet: abc'']
   \<and> (\<exists>T i rest. ''ValueSet: abc'' = T @ '': '' @ i
         \<and> (FTuple (T # i # rest) \<in> set (findall False (fhir_patterns ! 0) exact_reference)
            \<or> FTuple (T # i # rest) \<in> set (findall False (fhir_patterns ! 1) exact_reference)))
   \<and> title (parse_implementation_guide_html insertion_order upper_case_page ''u'') = ''Guide''
   \<and> description (parse_implementation_guide_html insertion_order upper_case_page ''u'')
       = ''About''
   \<and> version (parse_implementation_guide_html insertion_order upper_case_page ''u'') = ''1.2''
   \<and> sections (parse_implementation_guide_html insertion_order upper_case_page ''u'')
       = [''Intro'']
   \<and> links (parse_implementation_guide_html insertion_order upper_case_page ''u'')
       = [(''/g'', ''User Guide'')]"
proof -
  have p: "\<forall>xs. mset (insertion_order xs) = mset xs"
    by (simp add: insertion_order_def)
  have low: "\<forall>c\<in>set lowercase_reference. \<not> (CHR ''A'' \<le> c \<and> c \<le> CHR ''Z'')"
    by (simp add: lowercase_reference_def)
  have exact: "resources (parse_implementation_guide_html insertion_order exact_reference ''u'')
       = [''ValueSet: abc'']"
    by code_simp
  have page: "title (parse_implementation_guide_html insertion_order upper_case_page ''u'')
       = ''Guide''"
    "description (parse_implementation_guide_html insertion_order upper_case_page ''u'')
       = ''About''"
    "version (parse_implementation_guide_html insertion_order upper_case_page ''u'') = ''1.2''"
    "sections (parse_implementation_guide_html insertion_order upper_case_page ''u'')
       = [''Intro'']"
    "links (parse_implementation_guide_html insertion_order upper_case_page ''u'')
       = [(''/g'', ''User Guide'')]"
    by code_simp+
  note t1 = fhir_references_case_sensitive[where order = insertion_order
      and html = lowercase_reference and url = "''u''", OF p refl]
  note t2 = fhir_references_case_sensitive[where order = insertion_order
      and html = exact_reference and url = "''u''", OF p refl]
  have a: "resources (parse_implementation_guide_html insertion_order lowercase_reference ''u'')
       = []"
    using t1 low by blast
  have "''ValueSet: abc''
      \<in> set (resources (parse_implementation_guide_html insertion_order exact_reference ''u''))"
    using exact by simp
  then have b: "\<exists>T i rest. ''ValueSet: abc'' = T @ '': '' @ i
         \<and> (FTuple (T # i # rest) \<in> set (findall False (fhir_patterns ! 0) exact_reference)
            \<or> FTuple (T # i # rest) \<in> set (findall False (fhir_patterns ! 1) exact_reference))"
    using t2 by blast
  show ?thesis using a b exact page by blast
qed

end
